theory Spec2Isabelle
  imports Complex_Main "HOL-Library.Word" "HOL-Library.Multiset"
begin

section \<open>Data model\<close>

text \<open>
  The values of the C++ type \<open>double\<close>: a finite number, one of the two infinities, or
  not-a-number.  The two zeros of the format are one value here (the code never divides
  by a zero and never looks at the sign of one).
\<close>

datatype double = Finite real | PosInf | NegInf | NaN

text \<open>
  The result of an arithmetic operation on finite doubles is the exact result rounded to
  the format.  The rounding is a parameter of every operation: \<open>round_double\<close> is the
  rounding of the machine (binary64, round to nearest, ties to even), \<open>exact\<close> is
  arithmetic without rounding.
\<close>

type_synonym rounding = "real \<Rightarrow> double"

definition exact :: rounding where
  "exact x = Finite x"

text \<open>Rounding a number to the nearest integer, a tie to the even one.\<close>

definition rne :: "real \<Rightarrow> int" where
  "rne y =
     (let f = \<lfloor>y\<rfloor>; r = y - of_int f
      in if r < 1 / 2 then f else if 1 / 2 < r then f + 1 else if even f then f else f + 1)"

text \<open>
  binary64: a significand of 53 bits, exponents of the unit in the last place from
  \<open>-1074\<close> (the subnormal numbers) upwards; a result that rounds to \<open>2^1024\<close> or
  beyond is an infinity.
\<close>

definition round_double :: rounding where
  "round_double x =
     (if x = 0 then Finite 0
      else let e = max (\<lfloor>log 2 \<bar>x\<bar>\<rfloor> - 52) (- 1074);
               y = of_int (rne (x / 2 powr of_int e)) * 2 powr of_int e
           in if 2 ^ 1024 \<le> \<bar>y\<bar> then (if 0 < x then PosInf else NegInf) else Finite y)"

text \<open>The comparison \<open>a < b\<close> of two doubles.\<close>

fun dless :: "double \<Rightarrow> double \<Rightarrow> bool" where
  "dless (Finite a) (Finite b) = (a < b)"
| "dless (Finite a) PosInf = True"
| "dless NegInf (Finite b) = True"
| "dless NegInf PosInf = True"
| "dless _ _ = False"

text \<open>The comparison \<open>a >= 0\<close>.\<close>

fun dnonneg :: "double \<Rightarrow> bool" where
  "dnonneg (Finite a) = (0 \<le> a)"
| "dnonneg PosInf = True"
| "dnonneg _ = False"

text \<open>The sum \<open>a + b\<close> of two doubles.\<close>

fun fadd :: "rounding \<Rightarrow> double \<Rightarrow> double \<Rightarrow> double" where
  "fadd rnd (Finite a) (Finite b) = rnd (a + b)"
| "fadd rnd NaN _ = NaN"
| "fadd rnd _ NaN = NaN"
| "fadd rnd PosInf NegInf = NaN"
| "fadd rnd NegInf PosInf = NaN"
| "fadd rnd PosInf _ = PosInf"
| "fadd rnd _ PosInf = PosInf"
| "fadd rnd NegInf _ = NegInf"
| "fadd rnd _ NegInf = NegInf"

text \<open>The quotient \<open>a / b\<close> of two doubles.\<close>

fun fdiv :: "rounding \<Rightarrow> double \<Rightarrow> double \<Rightarrow> double" where
  "fdiv rnd (Finite a) (Finite b) =
     (if b = 0 then (if a = 0 then NaN else if 0 < a then PosInf else NegInf)
      else rnd (a / b))"
| "fdiv rnd NaN _ = NaN"
| "fdiv rnd _ NaN = NaN"
| "fdiv rnd (Finite a) _ = Finite 0"
| "fdiv rnd PosInf (Finite b) = (if 0 \<le> b then PosInf else NegInf)"
| "fdiv rnd NegInf (Finite b) = (if 0 \<le> b then NegInf else PosInf)"
| "fdiv rnd _ _ = NaN"

text \<open>\<open>std::pow(x, 2.0)\<close>, taken as the square, rounded.\<close>

fun fpow2 :: "rounding \<Rightarrow> double \<Rightarrow> double" where
  "fpow2 rnd (Finite a) = rnd (a ^ 2)"
| "fpow2 rnd PosInf = PosInf"
| "fpow2 rnd NegInf = PosInf"
| "fpow2 rnd NaN = NaN"

text \<open>\<open>std::sqrt(x)\<close>.\<close>

fun fsqrt :: "rounding \<Rightarrow> double \<Rightarrow> double" where
  "fsqrt rnd (Finite a) = (if a < 0 then NaN else rnd (sqrt a))"
| "fsqrt rnd PosInf = PosInf"
| "fsqrt rnd NegInf = NaN"
| "fsqrt rnd NaN = NaN"

text \<open>
  An \<open>arma::mat\<close>: the number of rows and the list of columns.  A matrix of Armadillo holds
  \<open>n_cols\<close> columns of \<open>n_rows\<close> entries each, and both sizes are machine words
  (\<open>wf_mat\<close>).
\<close>

record mat =
  n_rows :: nat
  cols :: "double list list"

definition n_cols :: "mat \<Rightarrow> nat" where
  "n_cols m = length (cols m)"

definition col :: "mat \<Rightarrow> nat \<Rightarrow> double list" where
  "col m j = cols m ! j"

definition wf_mat :: "mat \<Rightarrow> bool" where
  "wf_mat m \<longleftrightarrow> list_all (\<lambda>v. length v = n_rows m) (cols m)
     \<and> n_rows m < 2 ^ 64 \<and> n_cols m < 2 ^ 64"

text \<open>\<open>size_t\<close> is a 64-bit unsigned word; an \<open>arma::Col<size_t>\<close> is a list of them.\<close>

type_synonym size_t = "64 word"

text \<open>The conversion of a \<open>size_t\<close> to a double.\<close>

definition of_size_t :: "rounding \<Rightarrow> size_t \<Rightarrow> double" where
  "of_size_t rnd n = rnd (real (unat n))"

text \<open>\<open>m.zeros(r, c)\<close> and \<open>v.zeros(n)\<close>: resize and fill with zeros.\<close>

definition mat_zeros :: "mat \<Rightarrow> nat \<Rightarrow> nat \<Rightarrow> mat" where
  "mat_zeros m r c = m\<lparr>n_rows := r, cols := replicate c (replicate r (Finite 0))\<rparr>"

definition col_zeros :: "size_t list \<Rightarrow> nat \<Rightarrow> size_t list" where
  "col_zeros v n = replicate n 0"

text \<open>
  The ways a call can fail.  \<open>AssertFailed\<close> is \<open>Log::Assert\<close> on a false condition;
  \<open>IncompatibleDims\<close> is the size check of Armadillo's in-place addition of two vectors
  of different lengths.
\<close>

datatype error = AssertFailed | IncompatibleDims

text \<open>
  Modelled from the spec: \<open>Log::Assert\<close> is declared outside the source file at hand; a
  false condition is a fatal internal-invariant violation that terminates the call.
\<close>

definition Log_Assert :: "bool \<Rightarrow> error + unit" where
  "Log_Assert condition = (if condition then Inr () else Inl AssertFailed)"

text \<open>\<open>a += b\<close> on two column vectors.\<close>

definition col_add :: "rounding \<Rightarrow> double list \<Rightarrow> double list \<Rightarrow> error + double list" where
  "col_add rnd a b =
     (if length a = length b then Inr (map2 (fadd rnd) a b) else Inl IncompatibleDims)"

text \<open>The object: the dataset, the metric's \<open>Evaluate\<close>, and the counter.\<close>

record ParallelNaiveKMeans =
  dataset :: mat
  metric :: "double list \<Rightarrow> double list \<Rightarrow> double"
  distanceCalculations :: size_t

text \<open>The constructor: the counter starts at 0.\<close>

definition ParallelNaiveKMeans_new ::
  "mat \<Rightarrow> (double list \<Rightarrow> double list \<Rightarrow> double) \<Rightarrow> ParallelNaiveKMeans" where
  "ParallelNaiveKMeans_new data Evaluate =
     \<lparr>dataset = data, metric = Evaluate, distanceCalculations = 0\<rparr>"

section \<open>One iteration\<close>

text \<open>The body of the loop over the centroids \<open>j\<close>, on the pair (minDistance, closestCluster).\<close>

definition scan_step ::
  "(double list \<Rightarrow> double list \<Rightarrow> double) \<Rightarrow> double list \<Rightarrow> mat \<Rightarrow> nat \<Rightarrow> double \<times> nat
     \<Rightarrow> double \<times> nat" where
  "scan_step Evaluate p centroids j s =
     (let distance = Evaluate p (col centroids j)
      in if dless distance (fst s) then (distance, j) else s)"

definition closest_scan ::
  "(double list \<Rightarrow> double list \<Rightarrow> double) \<Rightarrow> mat \<Rightarrow> double list \<Rightarrow> double \<times> nat" where
  "closest_scan Evaluate centroids p =
     fold (scan_step Evaluate p centroids) [0..<n_cols centroids] (PosInf, n_cols centroids)"

text \<open>The body of the loop over the points \<open>i\<close>, on a worker's (localCentroids, localCounts).\<close>

definition assign_point ::
  "rounding \<Rightarrow> (double list \<Rightarrow> double list \<Rightarrow> double) \<Rightarrow> mat \<Rightarrow> mat \<Rightarrow> nat
     \<Rightarrow> mat \<times> size_t list \<Rightarrow> error + (mat \<times> size_t list)" where
  "assign_point rnd Evaluate data centroids i acc =
     (let localCentroids = fst acc; localCounts = snd acc;
          closestCluster = snd (closest_scan Evaluate centroids (col data i))
      in case Log_Assert (closestCluster \<noteq> n_cols centroids) of
           Inl e \<Rightarrow> Inl e
         | Inr _ \<Rightarrow>
            (case col_add rnd (col localCentroids closestCluster) (col data i) of
               Inl e \<Rightarrow> Inl e
             | Inr v \<Rightarrow>
                Inr (localCentroids\<lparr>cols := (cols localCentroids)[closestCluster := v]\<rparr>,
                     localCounts[closestCluster := localCounts ! closestCluster + 1])))"

text \<open>One worker's share of the loop: the points of its chunk, in order.\<close>

fun run_chunk ::
  "rounding \<Rightarrow> (double list \<Rightarrow> double list \<Rightarrow> double) \<Rightarrow> mat \<Rightarrow> mat \<Rightarrow> nat list
     \<Rightarrow> mat \<times> size_t list \<Rightarrow> error + (mat \<times> size_t list)" where
  "run_chunk rnd Evaluate data centroids [] acc = Inr acc"
| "run_chunk rnd Evaluate data centroids (i # is) acc =
     (case assign_point rnd Evaluate data centroids i acc of
        Inl e \<Rightarrow> Inl e
      | Inr acc' \<Rightarrow> run_chunk rnd Evaluate data centroids is acc')"

text \<open>The critical section: \<open>newCentroids += localCentroids; counts += localCounts\<close>.\<close>

definition merge_local ::
  "rounding \<Rightarrow> mat \<times> size_t list \<Rightarrow> mat \<times> size_t list \<Rightarrow> mat \<times> size_t list" where
  "merge_local rnd shared loc =
     ((fst shared)\<lparr>cols := map2 (map2 (fadd rnd)) (cols (fst shared)) (cols (fst loc))\<rparr>,
      map2 (+) (snd shared) (snd loc))"

text \<open>
  The parallel region.  The schedule gives, for every worker, the point indices it handles,
  in the order it handles them; the workers enter the critical section in the order of the
  list.  A worker only reads the dataset and the centroids and writes its private pair
  until it merges, so running the workers one after the other gives the result of any
  interleaving with that merge order.  A failure in a worker ends the call.
\<close>

fun parallel_region ::
  "rounding \<Rightarrow> (double list \<Rightarrow> double list \<Rightarrow> double) \<Rightarrow> mat \<Rightarrow> mat \<Rightarrow> nat list list
     \<Rightarrow> mat \<times> size_t list \<Rightarrow> error + (mat \<times> size_t list)" where
  "parallel_region rnd Evaluate data centroids [] shared = Inr shared"
| "parallel_region rnd Evaluate data centroids (chunk # rest) shared =
     (let localCentroids = mat_zeros \<lparr>n_rows = 0, cols = []\<rparr> (n_rows centroids) (n_cols centroids);
          localCounts = col_zeros [] (n_cols centroids)
      in case run_chunk rnd Evaluate data centroids chunk (localCentroids, localCounts) of
           Inl e \<Rightarrow> Inl e
         | Inr loc \<Rightarrow>
             parallel_region rnd Evaluate data centroids rest (merge_local rnd shared loc))"

text \<open>A schedule hands out every point index \<open>0..N-1\<close> exactly once.\<close>

definition valid_schedule :: "nat \<Rightarrow> nat list list \<Rightarrow> bool" where
  "valid_schedule N sched \<longleftrightarrow> sort (concat sched) = [0..<N]"

text \<open>Normalisation: \<open>if (counts(i) != 0) newCentroids.col(i) /= counts(i)\<close>.\<close>

definition normalize_step :: "rounding \<Rightarrow> size_t list \<Rightarrow> nat \<Rightarrow> mat \<Rightarrow> mat" where
  "normalize_step rnd counts i newCentroids =
     (if counts ! i \<noteq> 0
      then newCentroids\<lparr>cols := (cols newCentroids)
             [i := map (\<lambda>x. fdiv rnd x (of_size_t rnd (counts ! i))) (col newCentroids i)]\<rparr>
      else newCentroids)"

definition normalize_centroids :: "rounding \<Rightarrow> mat \<Rightarrow> size_t list \<Rightarrow> mat \<Rightarrow> mat" where
  "normalize_centroids rnd centroids counts newCentroids =
     fold (normalize_step rnd counts) [0..<n_cols centroids] newCentroids"

text \<open>The distortion loop on \<open>cNorm\<close>, and the returned square root.\<close>

definition cNorm_step ::
  "rounding \<Rightarrow> (double list \<Rightarrow> double list \<Rightarrow> double) \<Rightarrow> mat \<Rightarrow> mat \<Rightarrow> nat \<Rightarrow> double
     \<Rightarrow> double" where
  "cNorm_step rnd Evaluate centroids newCentroids i cNorm =
     fadd rnd cNorm (fpow2 rnd (Evaluate (col centroids i) (col newCentroids i)))"

definition distortion ::
  "rounding \<Rightarrow> (double list \<Rightarrow> double list \<Rightarrow> double) \<Rightarrow> mat \<Rightarrow> mat \<Rightarrow> double" where
  "distortion rnd Evaluate centroids newCentroids =
     fsqrt rnd (fold (cNorm_step rnd Evaluate centroids newCentroids) [0..<n_cols centroids]
                  (Finite 0))"

text \<open>
  \<open>Iterate\<close>.  The caller's \<open>newCentroids\<close> and \<open>counts\<close> are passed in and handed back;
  the result is the returned distortion, the two buffers and the object with its counter.
\<close>

definition Iterate ::
  "rounding \<Rightarrow> nat list list \<Rightarrow> ParallelNaiveKMeans \<Rightarrow> mat \<Rightarrow> mat \<Rightarrow> size_t list
     \<Rightarrow> error + (double \<times> mat \<times> size_t list \<times> ParallelNaiveKMeans)" where
  "Iterate rnd sched this centroids newCentroids counts =
     (let newCentroids = mat_zeros newCentroids (n_rows centroids) (n_cols centroids);
          counts = col_zeros counts (n_cols centroids)
      in case parallel_region rnd (metric this) (dataset this) centroids sched
                (newCentroids, counts) of
           Inl e \<Rightarrow> Inl e
         | Inr merged \<Rightarrow>
            (let counts = snd merged;
                 newCentroids = normalize_centroids rnd centroids counts (fst merged);
                 this = this\<lparr>distanceCalculations := distanceCalculations this
                          + of_nat (n_cols centroids) * of_nat (n_cols (dataset this))\<rparr>;
                 d = distortion rnd (metric this) centroids newCentroids;
                 this = this\<lparr>distanceCalculations := distanceCalculations this
                          + of_nat (n_cols centroids)\<rparr>
             in Inr (d, newCentroids, counts, this)))"

section \<open>The notions the properties speak of\<close>

text \<open>The cluster of point \<open>i\<close>: the index the centroid scan ends with.\<close>

definition cluster_of :: "(double list \<Rightarrow> double list \<Rightarrow> double) \<Rightarrow> mat \<Rightarrow> mat \<Rightarrow> nat \<Rightarrow> nat" where
  "cluster_of E data cs i = snd (closest_scan E cs (col data i))"

text \<open>The points, out of a list of point indices, that the scan assigns to cluster \<open>c\<close>.\<close>

definition assigned :: "(double list \<Rightarrow> double list \<Rightarrow> double) \<Rightarrow> mat \<Rightarrow> mat \<Rightarrow> nat \<Rightarrow> nat list \<Rightarrow> nat list" where
  "assigned E data cs c is = filter (\<lambda>i. cluster_of E data cs i = c) is"

text \<open>The sum of a list of doubles, added one after the other to a start value.\<close>

definition accumulate :: "rounding \<Rightarrow> double \<Rightarrow> double list \<Rightarrow> double" where
  "accumulate rnd a xs = fold (\<lambda>x s. fadd rnd s x) xs a"


text \<open>The reference for the reduction: a single sequential scan over all points \<open>0..N-1\<close>, accumulating straight into the zeroed (newCentroids, counts), followed by the same normalisation, counter update and distortion.\<close>

definition Iterate_sequential ::
  "rounding \<Rightarrow> ParallelNaiveKMeans \<Rightarrow> mat \<Rightarrow> mat \<Rightarrow> size_t list
     \<Rightarrow> error + (double \<times> mat \<times> size_t list \<times> ParallelNaiveKMeans)" where
  "Iterate_sequential rnd this centroids newCentroids counts =
     (let newCentroids = mat_zeros newCentroids (n_rows centroids) (n_cols centroids);
          counts = col_zeros counts (n_cols centroids)
      in case run_chunk rnd (metric this) (dataset this) centroids [0..<n_cols (dataset this)]
                (newCentroids, counts) of
           Inl e \<Rightarrow> Inl e
         | Inr merged \<Rightarrow>
            (let counts = snd merged;
                 newCentroids = normalize_centroids rnd centroids counts (fst merged);
                 this = this\<lparr>distanceCalculations := distanceCalculations this
                          + of_nat (n_cols centroids) * of_nat (n_cols (dataset this))\<rparr>;
                 d = distortion rnd (metric this) centroids newCentroids;
                 this = this\<lparr>distanceCalculations := distanceCalculations this
                          + of_nat (n_cols centroids)\<rparr>
             in Inr (d, newCentroids, counts, this)))"

section \<open>Metrics and inputs of the scenarios\<close>

text \<open>Negation and absolute value of a double, for the metrics below.\<close>

fun dneg :: "double \<Rightarrow> double" where
  "dneg (Finite a) = Finite (- a)"
| "dneg PosInf = NegInf"
| "dneg NegInf = PosInf"
| "dneg NaN = NaN"

text \<open>The absolute value.\<close>

fun dabs :: "double \<Rightarrow> double" where
  "dabs (Finite a) = Finite \<bar>a\<bar>"
| "dabs PosInf = PosInf"
| "dabs NegInf = PosInf"
| "dabs NaN = NaN"

text \<open>The L1 distance (\<open>ManhattanDistance\<close>), computed without rounding; on one-dimensional points it is the absolute difference the scenarios of the specification use.\<close>

definition manhattan :: "double list \<Rightarrow> double list \<Rightarrow> double" where
  "manhattan a b =
     accumulate exact (Finite 0) (map2 (\<lambda>x y. dabs (fadd exact x (dneg y))) a b)"

text \<open>A metric whose \<open>Evaluate\<close> returns the same value for every pair.\<close>

definition const_metric :: "double \<Rightarrow> double list \<Rightarrow> double list \<Rightarrow> double" where
  "const_metric v a b = v"

text \<open>The distance along the first coordinate only: non-negative and deterministic, but 0 between different points that agree in their first coordinate.\<close>

definition first_coordinate_metric :: "double list \<Rightarrow> double list \<Rightarrow> double" where
  "first_coordinate_metric a b =
     (case (a, b) of (x # _, y # _) \<Rightarrow> dabs (fadd exact x (dneg y)) | _ \<Rightarrow> Finite 0)"

text \<open>The Canberra distance of the first coordinates, \<open>|x - y| / (|x| + |y|)\<close>: the quotient 0/0 between two zeros is not-a-number.\<close>

definition canberra :: "double list \<Rightarrow> double list \<Rightarrow> double" where
  "canberra a b =
     (case (a, b) of
        (x # _, y # _) \<Rightarrow>
          fdiv exact (dabs (fadd exact x (dneg y))) (fadd exact (dabs x) (dabs y))
      | _ \<Rightarrow> NaN)"

text \<open>An empty matrix, for the caller's output buffer before the call.\<close>

definition empty_mat :: mat where
  "empty_mat = \<lparr>n_rows = 0, cols = []\<rparr>"

text \<open>The scenario with the one-dimensional dataset 0, 1, 10, 11 and the centroids 0, 10.\<close>

definition scenario_dataset :: mat where
  "scenario_dataset = \<lparr>n_rows = 1, cols = [[Finite 0], [Finite 1], [Finite 10], [Finite 11]]\<rparr>"

text \<open>Its centroids.\<close>

definition scenario_centroids :: mat where
  "scenario_centroids = \<lparr>n_rows = 1, cols = [[Finite 0], [Finite 10]]\<rparr>"

text \<open>Its object, freshly constructed.\<close>

definition scenario_kmeans :: ParallelNaiveKMeans where
  "scenario_kmeans = ParallelNaiveKMeans_new scenario_dataset manhattan"

text \<open>Its new centroids.\<close>

definition scenario_result :: mat where
  "scenario_result = \<lparr>n_rows = 1, cols = [[Finite (1 / 2)], [Finite (21 / 2)]]\<rparr>"

text \<open>The scenario with an empty cluster: dataset 0, 1, 2, 3 and centroids 0, 1000.\<close>

definition far_dataset :: mat where
  "far_dataset = \<lparr>n_rows = 1, cols = [[Finite 0], [Finite 1], [Finite 2], [Finite 3]]\<rparr>"

text \<open>Its centroids.\<close>

definition far_centroids :: mat where
  "far_centroids = \<lparr>n_rows = 1, cols = [[Finite 0], [Finite 1000]]\<rparr>"

text \<open>Its object, freshly constructed.\<close>

definition far_kmeans :: ParallelNaiveKMeans where
  "far_kmeans = ParallelNaiveKMeans_new far_dataset manhattan"

text \<open>Its new centroids.\<close>

definition far_result :: mat where
  "far_result = \<lparr>n_rows = 1, cols = [[Finite (3 / 2)], [Finite 0]]\<rparr>"

text \<open>A dataset on which the sum is rounded: \<open>2^53\<close>, 1, 1, 2, with the single centroid 0.\<close>

definition big_dataset :: mat where
  "big_dataset =
     \<lparr>n_rows = 1, cols = [[Finite (2 ^ 53)], [Finite 1], [Finite 1], [Finite 2]]\<rparr>"

text \<open>Its centroid.\<close>

definition big_centroids :: mat where
  "big_centroids = \<lparr>n_rows = 1, cols = [[Finite 0]]\<rparr>"

text \<open>Its object, freshly constructed.\<close>

definition big_kmeans :: ParallelNaiveKMeans where
  "big_kmeans = ParallelNaiveKMeans_new big_dataset manhattan"

text \<open>Its new centroid, as the machine computes it on one worker.\<close>

definition big_result :: mat where
  "big_result = \<lparr>n_rows = 1, cols = [[Finite (2 ^ 51 + 1 / 2)]]\<rparr>"

section \<open>Notions of the proofs\<close>

text \<open>The invariant of the centroid scan after the indices below \<open>n\<close>, for the distances \<open>d j\<close>: no distance seen is below the current minimum, and either nothing was selected yet (sentinel \<open>K\<close>, minimum still infinity) or the selected index carries the minimum, which is below infinity and differs from every earlier distance.\<close>

definition scan_inv ::
  "(nat \<Rightarrow> double) \<Rightarrow> nat \<Rightarrow> nat \<Rightarrow> double \<times> nat \<Rightarrow> bool" where
  "scan_inv d K n s \<longleftrightarrow>
     (\<forall>j<n. \<not> dless (d j) (fst s)) \<and>
     ((snd s = K \<and> fst s = PosInf) \<or>
      (snd s < n \<and> fst s = d (snd s) \<and> dless (fst s) PosInf \<and> (\<forall>j. j < snd s \<longrightarrow> d j \<noteq> fst s)))"

text \<open>Point \<open>i\<close> passes the loop body: the assertion holds and its length is the row count of the centroids.\<close>

definition point_ok :: "(double list \<Rightarrow> double list \<Rightarrow> double) \<Rightarrow> mat \<Rightarrow> mat \<Rightarrow> nat \<Rightarrow> bool" where
  "point_ok E data cs i \<longleftrightarrow>
     cluster_of E data cs i \<noteq> n_cols cs \<and> length (col data i) = n_rows cs"

text \<open>An accumulator pair of \<open>K\<close> columns of \<open>D\<close> entries and \<open>K\<close> counts.\<close>

definition shape :: "nat \<Rightarrow> nat \<Rightarrow> mat \<times> size_t list \<Rightarrow> bool" where
  "shape D K acc \<longleftrightarrow> n_rows (fst acc) = D \<and> length (cols (fst acc)) = K
     \<and> (\<forall>v\<in>set (cols (fst acc)). length v = D) \<and> length (snd acc) = K"

text \<open>Entry \<open>r\<close> of column \<open>c\<close> of an accumulator.\<close>

definition ent :: "mat \<times> size_t list \<Rightarrow> nat \<Rightarrow> nat \<Rightarrow> double" where
  "ent acc c r = cols (fst acc) ! c ! r"

text \<open>Count \<open>c\<close> of an accumulator.\<close>

definition cnt :: "mat \<times> size_t list \<Rightarrow> nat \<Rightarrow> size_t" where
  "cnt acc c = snd acc ! c"

text \<open>The zeroed accumulator pair of the centroids' shape.\<close>

definition zero_acc :: "mat \<Rightarrow> mat \<times> size_t list" where
  "zero_acc cs =
     (\<lparr>n_rows = n_rows cs, cols = replicate (n_cols cs) (replicate (n_rows cs) (Finite 0))\<rparr>,
      replicate (n_cols cs) 0)"

text \<open>What one worker adds up for entry \<open>r\<close> of cluster \<open>c\<close>.\<close>

definition local_sum ::
  "rounding \<Rightarrow> (double list \<Rightarrow> double list \<Rightarrow> double) \<Rightarrow> mat \<Rightarrow> mat \<Rightarrow> nat \<Rightarrow> nat \<Rightarrow> nat list
     \<Rightarrow> double" where
  "local_sum rnd E data cs c r chunk =
     accumulate rnd (Finite 0) (map (\<lambda>i. col data i ! r) (assigned E data cs c chunk))"

text \<open>The merged accumulators, as a function of the inputs and the schedule.\<close>

definition merged_acc ::
  "rounding \<Rightarrow> (double list \<Rightarrow> double list \<Rightarrow> double) \<Rightarrow> mat \<Rightarrow> mat \<Rightarrow> nat list list
     \<Rightarrow> mat \<times> size_t list" where
  "merged_acc rnd E data cs sched =
     (\<lparr>n_rows = n_rows cs,
       cols = map (\<lambda>c. map (\<lambda>r. accumulate rnd (Finite 0)
                                  (map (local_sum rnd E data cs c r) sched))
                        [0..<n_rows cs]) [0..<n_cols cs]\<rparr>,
      map (\<lambda>c. of_nat (length (assigned E data cs c [0..<n_cols data]))) [0..<n_cols cs])"

text \<open>Column \<open>c\<close> after normalisation.\<close>

definition mean_col :: "rounding \<Rightarrow> size_t list \<Rightarrow> mat \<Rightarrow> nat \<Rightarrow> double list" where
  "mean_col rnd counts m c =
     (if counts ! c \<noteq> 0
      then map (\<lambda>x. fdiv rnd x (of_size_t rnd (counts ! c))) (cols m ! c)
      else cols m ! c)"

text \<open>What \<open>Iterate\<close> does after the parallel region.\<close>

definition finalize ::
  "rounding \<Rightarrow> ParallelNaiveKMeans \<Rightarrow> mat \<Rightarrow> mat \<times> size_t list
     \<Rightarrow> double \<times> mat \<times> size_t list \<times> ParallelNaiveKMeans" where
  "finalize rnd this cs merged =
     (distortion rnd (metric this) cs (normalize_centroids rnd cs (snd merged) (fst merged)),
      normalize_centroids rnd cs (snd merged) (fst merged),
      snd merged,
      this\<lparr>distanceCalculations := distanceCalculations this
             + of_nat (n_cols cs) * of_nat (n_cols (dataset this)) + of_nat (n_cols cs)\<rparr>)"

text \<open>Every point of the dataset passes the loop body.\<close>

definition all_points_ok :: "ParallelNaiveKMeans \<Rightarrow> mat \<Rightarrow> bool" where
  "all_points_ok this cs \<longleftrightarrow>
     list_all (point_ok (metric this) (dataset this) cs) [0..<n_cols (dataset this)]"

text \<open>The values a sum of squares can take: a non-negative number, infinity or not-a-number.\<close>

fun sq_range :: "double \<Rightarrow> bool" where
  "sq_range (Finite a) = (0 \<le> a)"
| "sq_range PosInf = True"
| "sq_range NegInf = False"
| "sq_range NaN = True"

section \<open>Rounding\<close>

lemma rne_of_int [simp]: "rne (of_int m) = m"
  by (simp add: rne_def)

lemma rne_numeral [simp]: "rne (numeral n) = numeral n"
  by (simp add: rne_def)

lemma rne_nonneg: "0 \<le> y \<Longrightarrow> 0 \<le> rne y"
  by (auto simp: rne_def Let_def)

lemma rne_le: "y \<le> of_int n \<Longrightarrow> rne y \<le> n"
proof -
  assume a: "y \<le> of_int n"
  have f: "\<lfloor>y\<rfloor> \<le> n" using a by linarith
  show ?thesis
  proof (cases "\<lfloor>y\<rfloor> = n")
    case True
    then have "y = of_int n" using a by linarith
    then show ?thesis by simp
  next
    case False
    then have "\<lfloor>y\<rfloor> + 1 \<le> n" using f by linarith
    then show ?thesis using f by (auto simp: rne_def Let_def)
  qed
qed

lemma rne_ge: "of_int n \<le> y \<Longrightarrow> n \<le> rne y"
proof -
  assume a: "of_int n \<le> y"
  have "n \<le> \<lfloor>y\<rfloor>" using a by (simp add: le_floor_iff)
  then show ?thesis by (auto simp: rne_def Let_def)
qed

lemma round_double_zero: "round_double 0 = Finite 0"
  by (simp add: round_double_def)

lemma round_double_nonneg: "0 \<le> x \<Longrightarrow> dnonneg (round_double x)"
proof (cases "x = 0")
  case True
  then show ?thesis by (simp add: round_double_def)
next
  case False
  assume "0 \<le> x"
  then have pos: "0 < x" using False by simp
  have "0 \<le> rne (x / 2 powr of_int e)" for e
    by (rule rne_nonneg) (use pos in simp)
  then have "0 \<le> (of_int (rne (x / 2 powr of_int e)) :: real) * 2 powr of_int e" for e
    by simp
  then show ?thesis using pos by (simp add: round_double_def Let_def)
qed

lemma round_double_normal:
  assumes "2 powr of_int k \<le> \<bar>x\<bar>" and "\<bar>x\<bar> < 2 powr (of_int k + 1)"
    and "- 1022 \<le> k" and "k \<le> 1022"
  shows "round_double x
       = Finite (of_int (rne (x / 2 powr of_int (k - 52))) * 2 powr of_int (k - 52))"
proof -
  have "0 < (2::real) powr of_int k" by simp
  then have x0: "x \<noteq> 0" using assms(1) by auto
  then have ax: "0 < \<bar>x\<bar>" by simp
  have fl: "\<lfloor>log 2 \<bar>x\<bar>\<rfloor> = k"
    using floor_log_eq_powr_iff [OF ax, of 2 k] assms(1,2) by simp
  have e: "max (\<lfloor>log 2 \<bar>x\<bar>\<rfloor> - 52) (- 1074) = k - 52"
    unfolding fl using assms(3) by simp
  let ?q = "2 powr of_int (k - 52) :: real"
  have q: "0 < ?q" by simp
  have "\<bar>x\<bar> / ?q < 2 powr (of_int k + 1) / ?q"
    using assms(2) q by (simp add: divide_strict_right_mono)
  also have "2 powr (of_int k + 1) / ?q = 2 powr 53"
    by (simp add: powr_diff [symmetric])
  finally have b: "\<bar>x / ?q\<bar> < 2 ^ 53" by simp
  have b1: "x / ?q \<le> of_int (2 ^ 53)" and b2: "of_int (- (2 ^ 53)) \<le> x / ?q"
    using b by (simp_all only: of_int_minus of_int_power of_int_numeral)
  have u: "rne (x / ?q) \<le> 2 ^ 53"
    using b1 by (rule rne_le)
  have l: "- (2 ^ 53) \<le> rne (x / ?q)"
    using b2 by (rule rne_ge)
  have "\<bar>rne (x / ?q)\<bar> \<le> 2 ^ 53" using u l by simp
  then have "\<bar>of_int (rne (x / ?q)) :: real\<bar> \<le> 2 ^ 53"
    by (metis of_int_abs of_int_le_iff of_int_numeral of_int_power)
  then have "\<bar>of_int (rne (x / ?q)) * ?q\<bar> \<le> 2 ^ 53 * ?q"
    using q by (simp add: abs_mult mult_right_mono)
  also have "2 ^ 53 * ?q = 2 powr (of_int k + 1)"
  proof -
    have "(2::real) ^ 53 = 2 powr 53" by simp
    then show ?thesis by (simp only: powr_add [symmetric]) (simp add: add.commute)
  qed
  also have "\<dots> \<le> 2 powr 1023"
    by (rule powr_mono) (use assms(4) in simp_all)
  also have "\<dots> < 2 ^ 1024" by simp
  finally have "\<not> 2 ^ 1024 \<le> \<bar>of_int (rne (x / ?q)) * ?q\<bar>" by simp
  then show ?thesis
    using x0 by (simp add: round_double_def e Let_def)
qed

lemma rd_0: "round_double 0 = Finite 0" by (rule round_double_zero)

lemma rd_1: "round_double 1 = Finite 1"
  using round_double_normal [of 0 1] by (simp add: powr_neg_numeral)

lemma rd_2: "round_double 2 = Finite 2"
  using round_double_normal [of 1 2] by (simp add: powr_neg_numeral)

lemma rd_4: "round_double 4 = Finite 4"
  using round_double_normal [of 2 4] by (simp add: powr_neg_numeral)

lemma rd_a: "round_double 9007199254740992 = Finite 9007199254740992"
  using round_double_normal [of 53 9007199254740992] by simp

lemma rd_b: "round_double 9007199254740993 = Finite 9007199254740992"
  using round_double_normal [of 53 9007199254740993] by (simp add: rne_def)

lemma rd_c: "round_double 9007199254740994 = Finite 9007199254740994"
  using round_double_normal [of 53 9007199254740994] by (simp add: rne_def)

lemma rd_d: "round_double (4503599627370497 / 2) = Finite (4503599627370497 / 2)"
  using round_double_normal [of 51 "4503599627370497 / 2"] by (simp add: rne_def powr_neg_numeral)

lemma floor_log2_power: "\<lfloor>log 2 (2 ^ n)\<rfloor> = int n"
  by (simp add: log_nat_power)

lemma round_double_overflow: "round_double (2 ^ 1024) = PosInf"
proof -
  have f: "\<lfloor>log 2 \<bar>2 ^ 1024 :: real\<bar>\<rfloor> = 1024"
    using floor_log2_power [of 1024] by simp
  have e: "max (\<lfloor>log 2 \<bar>2 ^ 1024 :: real\<bar>\<rfloor> - 52) (- 1074) = 972"
    unfolding f by simp
  have q: "(2::real) ^ 1024 / 2 powr of_int 972 = 2 ^ 52"
    by simp
  have p: "(2::real) powr of_int 972 = 2 ^ 972" by simp
  show ?thesis
    unfolding round_double_def Let_def e q p by simp
qed

lemma fadd_overflow:
  "fadd round_double (Finite (2 ^ 1023)) (Finite (2 ^ 1023)) = PosInf"
proof -
  have "(2::real) ^ 1023 + 2 ^ 1023 = 2 ^ 1024" by simp
  then show ?thesis by (simp only: fadd.simps round_double_overflow)
qed

lemma round_double_underflow: "round_double (1 / 2 ^ 1200) = Finite 0"
proof -
  have x: "(1::real) / 2 ^ 1200 = 2 powr of_int (- 1200)" by (simp add: powr_neg_numeral)
  have f: "\<lfloor>log 2 \<bar>2 powr of_int (- 1200) :: real\<bar>\<rfloor> = - 1200"
    by simp
  have e: "max (\<lfloor>log 2 \<bar>2 powr of_int (- 1200) :: real\<bar>\<rfloor> - 52) (- 1074) = - 1074"
    unfolding f by simp
  have q: "(2::real) powr of_int (- 1200) / 2 powr of_int (- 1074) = 1 / 2 ^ 126"
    by (simp add: powr_neg_numeral)
  have r: "rne (1 / 2 ^ 126) = 0"
    by (simp add: rne_def)
  show ?thesis
    unfolding x round_double_def Let_def e q r by simp
qed

lemma fpow2_underflow: "fpow2 round_double (Finite (1 / 2 ^ 600)) = Finite 0"
proof -
  have "((1::real) / 2 ^ 600)\<^sup>2 = 1 / 2 ^ 1200" by (simp add: power_divide)
  then show ?thesis by (simp only: fpow2.simps round_double_underflow)
qed

section \<open>The centroid scan\<close>

lemma dless_irrefl: "\<not> dless a a"
  by (cases a) simp_all

lemma dless_trans: "dless a b \<Longrightarrow> dless b c \<Longrightarrow> dless a c"
  by (cases a; cases b; cases c) simp_all

lemma dless_PosInf: "dless a PosInf \<longleftrightarrow> (a \<noteq> PosInf \<and> a \<noteq> NaN)"
  by (cases a) simp_all

lemma scan_inv_step:
  assumes "scan_inv (\<lambda>j. E p (col cs j)) K n s" and "n < K"
  shows "scan_inv (\<lambda>j. E p (col cs j)) K (Suc n) (scan_step E p cs n s)"
proof (cases "dless (E p (col cs n)) (fst s)")
  case True
  have a: "\<forall>j<n. \<not> dless (E p (col cs j)) (fst s)"
    using assms(1) by (simp add: scan_inv_def)
  have b: "\<forall>j<n. \<not> dless (E p (col cs j)) (E p (col cs n))"
    using a True dless_trans by blast
  have c: "\<forall>j<n. E p (col cs j) \<noteq> E p (col cs n)"
    using a True by metis
  have d: "dless (E p (col cs n)) PosInf"
    using assms(1) True dless_trans unfolding scan_inv_def by metis
  show ?thesis
    using True b c d by (auto simp: scan_inv_def scan_step_def Let_def less_Suc_eq dless_irrefl)
next
  case False
  then show ?thesis
    using assms by (auto simp: scan_inv_def scan_step_def Let_def less_Suc_eq)
qed

lemma scan_inv_fold:
  "n \<le> K \<Longrightarrow>
   scan_inv (\<lambda>j. E p (col cs j)) K n (fold (scan_step E p cs) [0..<n] (PosInf, K))"
proof (induction n)
  case 0
  then show ?case by (simp add: scan_inv_def)
next
  case (Suc n)
  then show ?case by (simp add: scan_inv_step)
qed

lemma closest_scan_inv:
  "scan_inv (\<lambda>j. E p (col cs j)) (n_cols cs) (n_cols cs) (closest_scan E cs p)"
  unfolding closest_scan_def by (rule scan_inv_fold) simp

lemma closest_scan_le: "snd (closest_scan E cs p) \<le> n_cols cs"
  using closest_scan_inv [of E p cs] by (auto simp: scan_inv_def)

lemma closest_scan_selects_iff:
  "snd (closest_scan E cs p) \<noteq> n_cols cs \<longleftrightarrow> (\<exists>j<n_cols cs. dless (E p (col cs j)) PosInf)"
  using closest_scan_inv [of E p cs] by (auto simp: scan_inv_def dless_irrefl)


section \<open>The accumulators of a worker\<close>

lemma accumulate_Nil [simp]: "accumulate rnd a [] = a"
  by (simp add: accumulate_def)

lemma accumulate_Cons [simp]: "accumulate rnd a (x # xs) = accumulate rnd (fadd rnd a x) xs"
  by (simp add: accumulate_def)

lemma accumulate_append: "accumulate rnd a (xs @ ys) = accumulate rnd (accumulate rnd a xs) ys"
  by (simp add: accumulate_def)

lemma acc_eqI:
  assumes "shape D K a" and "shape D K b"
    and "\<And>c r. c < K \<Longrightarrow> r < D \<Longrightarrow> ent a c r = ent b c r"
    and "\<And>c. c < K \<Longrightarrow> cnt a c = cnt b c"
  shows "a = b"
proof -
  have "cols (fst a) = cols (fst b)"
  proof (rule nth_equalityI)
    show "length (cols (fst a)) = length (cols (fst b))"
      using assms(1,2) by (simp add: shape_def)
  next
    fix c assume c: "c < length (cols (fst a))"
    then have cK: "c < K" using assms(1) by (simp add: shape_def)
    have la: "length (cols (fst a) ! c) = D" using assms(1) c by (simp add: shape_def)
    have lb: "length (cols (fst b) ! c) = D" using assms(2) cK by (simp add: shape_def)
    show "cols (fst a) ! c = cols (fst b) ! c"
      by (rule nth_equalityI) (use la lb assms(3) [OF cK] in \<open>auto simp: ent_def\<close>)
  qed
  moreover have "n_rows (fst a) = n_rows (fst b)"
    using assms(1,2) by (simp add: shape_def)
  ultimately have "fst a = fst b" by simp
  moreover have "snd a = snd b"
    by (rule nth_equalityI) (use assms(1,2,4) in \<open>auto simp: shape_def cnt_def\<close>)
  ultimately show ?thesis by (simp add: prod_eq_iff)
qed

lemma assign_point_Inr:
  assumes "shape (n_rows cs) (n_cols cs) acc" and "point_ok E data cs i"
  shows "\<exists>acc'. assign_point rnd E data cs i acc = Inr acc' \<and> shape (n_rows cs) (n_cols cs) acc'
     \<and> (\<forall>c<n_cols cs. \<forall>r<n_rows cs. ent acc' c r =
          (if cluster_of E data cs i = c then fadd rnd (ent acc c r) (col data i ! r)
           else ent acc c r))
     \<and> (\<forall>c<n_cols cs. cnt acc' c =
          cnt acc c + (if cluster_of E data cs i = c then 1 else 0))"
proof -
  let ?c = "cluster_of E data cs i"
  have cK: "?c < n_cols cs"
    using assms(2) closest_scan_le [of E cs "col data i"] by (simp add: point_ok_def cluster_of_def)
  have len: "length (col (fst acc) ?c) = length (col data i)"
    using assms cK by (simp add: shape_def point_ok_def col_def)
  let ?acc' = "((fst acc)\<lparr>cols := (cols (fst acc))[?c := map2 (fadd rnd) (col (fst acc) ?c) (col data i)]\<rparr>,
                (snd acc)[?c := snd acc ! ?c + 1])"
  have eq: "assign_point rnd E data cs i acc = Inr ?acc'"
    using assms(2) len
    by (simp add: assign_point_def Let_def Log_Assert_def col_add_def point_ok_def cluster_of_def)
  have sh: "shape (n_rows cs) (n_cols cs) ?acc'"
    using assms(1) len assms(2)
    by (auto simp: shape_def point_ok_def col_def dest!: set_update_subset_insert [THEN subsetD])
  have e: "\<forall>c<n_cols cs. \<forall>r<n_rows cs. ent ?acc' c r =
          (if ?c = c then fadd rnd (ent acc c r) (col data i ! r) else ent acc c r)"
    using assms(1) len assms(2) cK
    by (auto simp: ent_def shape_def col_def point_ok_def nth_list_update)
  have n: "\<forall>c<n_cols cs. cnt ?acc' c = cnt acc c + (if ?c = c then 1 else 0)"
    using assms(1) cK by (auto simp: cnt_def shape_def nth_list_update)
  show ?thesis using eq sh e n by blast
qed

lemma assign_point_Inl:
  assumes "shape (n_rows cs) (n_cols cs) acc" and "\<not> point_ok E data cs i"
  shows "\<exists>e. assign_point rnd E data cs i acc = Inl e"
proof (cases "cluster_of E data cs i = n_cols cs")
  case True
  then show ?thesis
    by (simp add: assign_point_def Let_def Log_Assert_def cluster_of_def)
next
  case False
  then have cK: "cluster_of E data cs i < n_cols cs"
    using closest_scan_le [of E cs "col data i"] by (simp add: cluster_of_def)
  have "length (col (fst acc) (cluster_of E data cs i)) \<noteq> length (col data i)"
    using assms cK False by (simp add: shape_def point_ok_def col_def)
  then show ?thesis
    using False
    by (simp add: assign_point_def Let_def Log_Assert_def col_add_def cluster_of_def)
qed

lemma run_chunk_Inr:
  assumes "shape (n_rows cs) (n_cols cs) acc" and "\<forall>i\<in>set is. point_ok E data cs i"
  shows "\<exists>acc'. run_chunk rnd E data cs is acc = Inr acc' \<and> shape (n_rows cs) (n_cols cs) acc'
     \<and> (\<forall>c<n_cols cs. \<forall>r<n_rows cs. ent acc' c r =
          accumulate rnd (ent acc c r) (map (\<lambda>i. col data i ! r) (assigned E data cs c is)))
     \<and> (\<forall>c<n_cols cs. cnt acc' c = cnt acc c + of_nat (length (assigned E data cs c is)))"
  using assms
proof (induction "is" arbitrary: acc)
  case Nil
  then show ?case by (simp add: assigned_def)
next
  case (Cons i "is")
  from assign_point_Inr [OF Cons.prems(1), of E data i rnd] Cons.prems(2)
  obtain acc1 where a1: "assign_point rnd E data cs i acc = Inr acc1"
    and s1: "shape (n_rows cs) (n_cols cs) acc1"
    and e1: "\<forall>c<n_cols cs. \<forall>r<n_rows cs. ent acc1 c r =
          (if cluster_of E data cs i = c then fadd rnd (ent acc c r) (col data i ! r)
           else ent acc c r)"
    and n1: "\<forall>c<n_cols cs. cnt acc1 c =
          cnt acc c + (if cluster_of E data cs i = c then 1 else 0)"
    by auto
  from Cons.IH [OF s1] Cons.prems(2)
  obtain acc' where a2: "run_chunk rnd E data cs is acc1 = Inr acc'"
    and s2: "shape (n_rows cs) (n_cols cs) acc'"
    and e2: "\<forall>c<n_cols cs. \<forall>r<n_rows cs. ent acc' c r =
          accumulate rnd (ent acc1 c r) (map (\<lambda>i. col data i ! r) (assigned E data cs c is))"
    and n2: "\<forall>c<n_cols cs. cnt acc' c = cnt acc1 c + of_nat (length (assigned E data cs c is))"
    by auto
  have "run_chunk rnd E data cs (i # is) acc = Inr acc'"
    using a1 a2 by simp
  moreover have "\<forall>c<n_cols cs. \<forall>r<n_rows cs. ent acc' c r =
          accumulate rnd (ent acc c r) (map (\<lambda>i. col data i ! r) (assigned E data cs c (i # is)))"
    using e1 e2 by (simp add: assigned_def)
  moreover have "\<forall>c<n_cols cs. cnt acc' c = cnt acc c + of_nat (length (assigned E data cs c (i # is)))"
    using n1 n2 by (simp add: assigned_def)
  ultimately show ?case using s2 by blast
qed

lemma run_chunk_Inl:
  assumes "shape (n_rows cs) (n_cols cs) acc" and "\<exists>i\<in>set is. \<not> point_ok E data cs i"
  shows "\<exists>e. run_chunk rnd E data cs is acc = Inl e"
  using assms
proof (induction "is" arbitrary: acc)
  case Nil
  then show ?case by simp
next
  case (Cons i "is")
  show ?case
  proof (cases "point_ok E data cs i")
    case True
    from assign_point_Inr [OF Cons.prems(1) True, of rnd]
    obtain acc1 where a1: "assign_point rnd E data cs i acc = Inr acc1"
      and s1: "shape (n_rows cs) (n_cols cs) acc1" by auto
    have "\<exists>i\<in>set is. \<not> point_ok E data cs i" using Cons.prems(2) True by auto
    from Cons.IH [OF s1 this] a1 show ?thesis by simp
  next
    case False
    from assign_point_Inl [OF Cons.prems(1) False, of rnd] show ?thesis by auto
  qed
qed

section \<open>The parallel region\<close>

lemma zero_acc_shape: "shape (n_rows cs) (n_cols cs) (zero_acc cs)"
  by (simp add: zero_acc_def shape_def)

lemma zero_acc_ent: "c < n_cols cs \<Longrightarrow> r < n_rows cs \<Longrightarrow> ent (zero_acc cs) c r = Finite 0"
  by (simp add: zero_acc_def ent_def)

lemma zero_acc_cnt: "c < n_cols cs \<Longrightarrow> cnt (zero_acc cs) c = 0"
  by (simp add: zero_acc_def cnt_def)

lemma local_zeros:
  "(mat_zeros \<lparr>n_rows = 0, cols = []\<rparr> (n_rows cs) (n_cols cs), col_zeros [] (n_cols cs)) = zero_acc cs"
  by (simp add: mat_zeros_def col_zeros_def zero_acc_def)

lemma shared_zeros:
  "(mat_zeros (m::mat) (n_rows cs) (n_cols cs), col_zeros v (n_cols cs)) = zero_acc cs"
  by (simp add: mat_zeros_def col_zeros_def zero_acc_def)

lemma merge_local_shape:
  "shape D K a \<Longrightarrow> shape D K b \<Longrightarrow> shape D K (merge_local rnd a b)"
  by (auto simp: shape_def merge_local_def set_zip)

lemma merge_local_ent:
  "shape D K a \<Longrightarrow> shape D K b \<Longrightarrow> c < K \<Longrightarrow> r < D \<Longrightarrow>
   ent (merge_local rnd a b) c r = fadd rnd (ent a c r) (ent b c r)"
  by (simp add: shape_def merge_local_def ent_def)

lemma merge_local_cnt:
  "shape D K a \<Longrightarrow> shape D K b \<Longrightarrow> c < K \<Longrightarrow>
   cnt (merge_local rnd a b) c = cnt a c + cnt b c"
  by (simp add: shape_def merge_local_def cnt_def)

lemma parallel_region_Inr:
  assumes "shape (n_rows cs) (n_cols cs) shared"
    and "\<forall>i\<in>set (concat sched). point_ok E data cs i"
  shows "\<exists>acc'. parallel_region rnd E data cs sched shared = Inr acc'
     \<and> shape (n_rows cs) (n_cols cs) acc'
     \<and> (\<forall>c<n_cols cs. \<forall>r<n_rows cs. ent acc' c r =
          accumulate rnd (ent shared c r) (map (local_sum rnd E data cs c r) sched))
     \<and> (\<forall>c<n_cols cs. cnt acc' c =
          cnt shared c + of_nat (length (assigned E data cs c (concat sched))))"
  using assms
proof (induction sched arbitrary: shared)
  case Nil
  then show ?case by (simp add: assigned_def)
next
  case (Cons chunk rest)
  have ok1: "\<forall>i\<in>set chunk. point_ok E data cs i" using Cons.prems(2) by simp
  have ok2: "\<forall>i\<in>set (concat rest). point_ok E data cs i" using Cons.prems(2) by simp
  from run_chunk_Inr [OF zero_acc_shape ok1, of rnd]
  obtain loc where l1: "run_chunk rnd E data cs chunk (zero_acc cs) = Inr loc"
    and ls: "shape (n_rows cs) (n_cols cs) loc"
    and le: "\<forall>c<n_cols cs. \<forall>r<n_rows cs. ent loc c r =
          accumulate rnd (ent (zero_acc cs) c r)
            (map (\<lambda>i. col data i ! r) (assigned E data cs c chunk))"
    and ln: "\<forall>c<n_cols cs. cnt loc c = cnt (zero_acc cs) c + of_nat (length (assigned E data cs c chunk))"
    by auto
  let ?m = "merge_local rnd shared loc"
  have ms: "shape (n_rows cs) (n_cols cs) ?m"
    using Cons.prems(1) ls by (rule merge_local_shape)
  from Cons.IH [OF ms ok2]
  obtain acc' where p: "parallel_region rnd E data cs rest ?m = Inr acc'"
    and s: "shape (n_rows cs) (n_cols cs) acc'"
    and e: "\<forall>c<n_cols cs. \<forall>r<n_rows cs. ent acc' c r =
          accumulate rnd (ent ?m c r) (map (local_sum rnd E data cs c r) rest)"
    and n: "\<forall>c<n_cols cs. cnt acc' c =
          cnt ?m c + of_nat (length (assigned E data cs c (concat rest)))"
    by auto
  have "parallel_region rnd E data cs (chunk # rest) shared = Inr acc'"
    using l1 p by (simp add: local_zeros)
  moreover have "\<forall>c<n_cols cs. \<forall>r<n_rows cs. ent acc' c r =
          accumulate rnd (ent shared c r) (map (local_sum rnd E data cs c r) (chunk # rest))"
    using e le merge_local_ent [OF Cons.prems(1) ls]
    by (simp add: zero_acc_ent local_sum_def)
  moreover have "\<forall>c<n_cols cs. cnt acc' c =
          cnt shared c + of_nat (length (assigned E data cs c (concat (chunk # rest))))"
    using n ln merge_local_cnt [OF Cons.prems(1) ls]
    by (simp add: assigned_def zero_acc_cnt)
  ultimately show ?case using s by blast
qed

lemma parallel_region_Inl:
  assumes "shape (n_rows cs) (n_cols cs) shared"
    and "\<exists>i\<in>set (concat sched). \<not> point_ok E data cs i"
  shows "\<exists>e. parallel_region rnd E data cs sched shared = Inl e"
  using assms
proof (induction sched arbitrary: shared)
  case Nil
  then show ?case by simp
next
  case (Cons chunk rest)
  show ?case
  proof (cases "\<forall>i\<in>set chunk. point_ok E data cs i")
    case True
    from run_chunk_Inr [OF zero_acc_shape True, of rnd]
    obtain loc where l1: "run_chunk rnd E data cs chunk (zero_acc cs) = Inr loc"
      and ls: "shape (n_rows cs) (n_cols cs) loc" by auto
    have ms: "shape (n_rows cs) (n_cols cs) (merge_local rnd shared loc)"
      using Cons.prems(1) ls by (rule merge_local_shape)
    have "\<exists>i\<in>set (concat rest). \<not> point_ok E data cs i"
      using Cons.prems(2) True by auto
    from Cons.IH [OF ms this] l1 show ?thesis by (simp add: local_zeros)
  next
    case False
    then have "\<exists>i\<in>set chunk. \<not> point_ok E data cs i" by simp
    from run_chunk_Inl [OF zero_acc_shape this, of rnd] show ?thesis
      by (auto simp: local_zeros)
  qed
qed

lemma valid_schedule_mset: "valid_schedule N sched \<Longrightarrow> mset (concat sched) = mset [0..<N]"
  unfolding valid_schedule_def by (metis mset_sort)

lemma valid_schedule_set: "valid_schedule N sched \<Longrightarrow> set (concat sched) = {0..<N}"
  using valid_schedule_mset [THEN mset_eq_setD] by simp

lemma assigned_mset:
  "mset xs = mset ys \<Longrightarrow> mset (assigned E data cs c xs) = mset (assigned E data cs c ys)"
  by (simp add: assigned_def)

lemma assigned_length_perm:
  assumes "mset xs = mset ys"
  shows "length (assigned E data cs c xs) = length (assigned E data cs c ys)"
  using assigned_mset [OF assms] by (metis size_mset)

lemma merged_acc_shape: "shape (n_rows cs) (n_cols cs) (merged_acc rnd E data cs sched)"
  by (auto simp: merged_acc_def shape_def)

lemma merged_acc_ent:
  "c < n_cols cs \<Longrightarrow> r < n_rows cs \<Longrightarrow>
   ent (merged_acc rnd E data cs sched) c r =
     accumulate rnd (Finite 0) (map (local_sum rnd E data cs c r) sched)"
  by (simp add: merged_acc_def ent_def)

lemma merged_acc_cnt:
  "c < n_cols cs \<Longrightarrow>
   cnt (merged_acc rnd E data cs sched) c = of_nat (length (assigned E data cs c [0..<n_cols data]))"
  by (simp add: merged_acc_def cnt_def)

lemma parallel_region_valid:
  assumes "valid_schedule (n_cols data) sched"
    and "\<forall>i<n_cols data. point_ok E data cs i"
  shows "parallel_region rnd E data cs sched (zero_acc cs) = Inr (merged_acc rnd E data cs sched)"
proof -
  have st: "set (concat sched) = {0..<n_cols data}"
    using assms(1) by (rule valid_schedule_set)
  have ms: "mset (concat sched) = mset [0..<n_cols data]"
    using assms(1) by (rule valid_schedule_mset)
  have ok: "\<forall>i\<in>set (concat sched). point_ok E data cs i"
    using assms(2) st by simp
  from parallel_region_Inr [OF zero_acc_shape ok, of rnd]
  obtain acc' where p: "parallel_region rnd E data cs sched (zero_acc cs) = Inr acc'"
    and s: "shape (n_rows cs) (n_cols cs) acc'"
    and e: "\<forall>c<n_cols cs. \<forall>r<n_rows cs. ent acc' c r =
          accumulate rnd (ent (zero_acc cs) c r) (map (local_sum rnd E data cs c r) sched)"
    and n: "\<forall>c<n_cols cs. cnt acc' c =
          cnt (zero_acc cs) c + of_nat (length (assigned E data cs c (concat sched)))"
    by auto
  have "acc' = merged_acc rnd E data cs sched"
  proof (rule acc_eqI [OF s merged_acc_shape])
    fix c r assume "c < n_cols cs" "r < n_rows cs"
    then show "ent acc' c r = ent (merged_acc rnd E data cs sched) c r"
      using e by (simp add: zero_acc_ent merged_acc_ent)
  next
    fix c assume "c < n_cols cs"
    then show "cnt acc' c = cnt (merged_acc rnd E data cs sched) c"
      using n assigned_length_perm [OF ms, of E data cs c]
      by (simp add: zero_acc_cnt merged_acc_cnt)
  qed
  then show ?thesis using p by simp
qed

lemma parallel_region_invalid:
  assumes "valid_schedule (n_cols data) sched"
    and "\<exists>i<n_cols data. \<not> point_ok E data cs i"
  shows "\<exists>e. parallel_region rnd E data cs sched (zero_acc cs) = Inl e"
proof -
  have "set (concat sched) = {0..<n_cols data}"
    using assms(1) by (rule valid_schedule_set)
  then have "\<exists>i\<in>set (concat sched). \<not> point_ok E data cs i"
    using assms(2) by auto
  from parallel_region_Inl [OF zero_acc_shape this] show ?thesis .
qed

section \<open>Normalisation and the result of a call\<close>

lemma normalize_step_n_rows: "n_rows (normalize_step rnd counts i m) = n_rows m"
  by (simp add: normalize_step_def)

lemma normalize_step_length: "length (cols (normalize_step rnd counts i m)) = length (cols m)"
  by (simp add: normalize_step_def)

lemma normalize_step_nth:
  "c < length (cols m) \<Longrightarrow>
   cols (normalize_step rnd counts i m) ! c
     = (if c = i then mean_col rnd counts m c else cols m ! c)"
  by (simp add: normalize_step_def mean_col_def col_def nth_list_update)

lemma normalize_fold:
  "n_rows (fold (normalize_step rnd counts) [0..<n] m) = n_rows m
   \<and> length (cols (fold (normalize_step rnd counts) [0..<n] m)) = length (cols m)
   \<and> (\<forall>c<length (cols m). cols (fold (normalize_step rnd counts) [0..<n] m) ! c =
         (if c < n then mean_col rnd counts m c else cols m ! c))"
proof (induction n)
  case 0
  then show ?case by simp
next
  case (Suc n)
  let ?m = "fold (normalize_step rnd counts) [0..<n] m"
  have f: "fold (normalize_step rnd counts) [0..<Suc n] m = normalize_step rnd counts n ?m"
    by simp
  have "\<forall>c<length (cols m). cols (normalize_step rnd counts n ?m) ! c =
         (if c < Suc n then mean_col rnd counts m c else cols m ! c)"
  proof (intro allI impI)
    fix c assume c: "c < length (cols m)"
    then have c': "c < length (cols ?m)" using Suc.IH by simp
    show "cols (normalize_step rnd counts n ?m) ! c =
         (if c < Suc n then mean_col rnd counts m c else cols m ! c)"
    proof (cases "c = n")
      case True
      have "cols ?m ! n = cols m ! n" using Suc.IH c True by simp
      then have "mean_col rnd counts ?m n = mean_col rnd counts m n" by (simp add: mean_col_def)
      then show ?thesis using normalize_step_nth [OF c', of rnd counts n] True by simp
    next
      case False
      then show ?thesis using normalize_step_nth [OF c', of rnd counts n] Suc.IH c by auto
    qed
  qed
  then show ?case
    unfolding f using Suc.IH by (simp add: normalize_step_n_rows normalize_step_length)
qed

lemma normalize_centroids_n_rows: "n_rows (normalize_centroids rnd cs counts m) = n_rows m"
  unfolding normalize_centroids_def using normalize_fold by blast

lemma normalize_centroids_length:
  "length (cols (normalize_centroids rnd cs counts m)) = length (cols m)"
  unfolding normalize_centroids_def using normalize_fold by blast

lemma normalize_centroids_nth:
  "length (cols m) = n_cols cs \<Longrightarrow> c < n_cols cs \<Longrightarrow>
   cols (normalize_centroids rnd cs counts m) ! c = mean_col rnd counts m c"
  unfolding normalize_centroids_def using normalize_fold [of rnd counts "n_cols cs" m] by simp

lemma Iterate_unfold:
  "Iterate rnd sched this cs newCentroids counts =
     (case parallel_region rnd (metric this) (dataset this) cs sched (zero_acc cs) of
        Inl e \<Rightarrow> Inl e
      | Inr merged \<Rightarrow> Inr (finalize rnd this cs merged))"
  by (simp add: Iterate_def Let_def shared_zeros finalize_def split: sum.splits)

lemma all_points_ok_iff:
  "all_points_ok this cs \<longleftrightarrow>
     (\<forall>i<n_cols (dataset this). point_ok (metric this) (dataset this) cs i)"
  by (auto simp: all_points_ok_def list_all_iff)

lemma Iterate_ok:
  assumes "valid_schedule (n_cols (dataset this)) sched" and "all_points_ok this cs"
  shows "Iterate rnd sched this cs newCentroids counts =
           Inr (finalize rnd this cs (merged_acc rnd (metric this) (dataset this) cs sched))"
  using parallel_region_valid [OF assms(1), of "metric this" cs rnd] assms(2)
  by (simp add: Iterate_unfold all_points_ok_iff)

lemma Iterate_fails:
  assumes "valid_schedule (n_cols (dataset this)) sched" and "\<not> all_points_ok this cs"
  shows "\<exists>e. Iterate rnd sched this cs newCentroids counts = Inl e"
proof -
  have "\<exists>i<n_cols (dataset this). \<not> point_ok (metric this) (dataset this) cs i"
    using assms(2) by (simp add: all_points_ok_iff)
  from parallel_region_invalid [OF assms(1) this, of rnd]
  show ?thesis by (auto simp: Iterate_unfold)
qed

lemma Iterate_Inr_iff:
  assumes "valid_schedule (n_cols (dataset this)) sched"
  shows "Iterate rnd sched this cs newCentroids counts = Inr res \<longleftrightarrow>
           all_points_ok this cs
           \<and> res = finalize rnd this cs (merged_acc rnd (metric this) (dataset this) cs sched)"
proof (cases "all_points_ok this cs")
  case True
  then show ?thesis using Iterate_ok [OF assms True] by auto
next
  case False
  then show ?thesis using Iterate_fails [OF assms False, of rnd newCentroids counts] by auto
qed

section \<open>Exact arithmetic: the order of a sum does not matter\<close>

lemma fadd_exact_assoc: "fadd exact (fadd exact a b) c = fadd exact a (fadd exact b c)"
  by (cases a; cases b; cases c) (simp_all add: exact_def)

lemma fadd_exact_commute: "fadd exact a b = fadd exact b a"
  by (cases a; cases b) (simp_all add: exact_def)

lemma fadd_exact_zero_right: "fadd exact a (Finite 0) = a"
  by (cases a) (simp_all add: exact_def)

lemma fadd_exact_zero_left: "fadd exact (Finite 0) a = a"
  by (cases a) (simp_all add: exact_def)

lemma accumulate_exact_start:
  "accumulate exact a xs = fadd exact a (accumulate exact (Finite 0) xs)"
proof (induction xs arbitrary: a)
  case Nil
  then show ?case by (simp add: fadd_exact_zero_right)
next
  case (Cons x xs)
  have "accumulate exact a (x # xs) = accumulate exact (fadd exact a x) xs" by simp
  also have "\<dots> = fadd exact (fadd exact a x) (accumulate exact (Finite 0) xs)"
    by (rule Cons.IH)
  also have "\<dots> = fadd exact a (fadd exact x (accumulate exact (Finite 0) xs))"
    by (rule fadd_exact_assoc)
  also have "fadd exact x (accumulate exact (Finite 0) xs) = accumulate exact x xs"
    by (rule Cons.IH [symmetric])
  also have "accumulate exact x xs = accumulate exact (Finite 0) (x # xs)"
    by (simp add: fadd_exact_zero_left)
  finally show ?case .
qed

lemma accumulate_exact_concat:
  "accumulate exact a (map (\<lambda>ys. accumulate exact (Finite 0) (map f ys)) xss)
     = accumulate exact a (map f (concat xss))"
proof (induction xss arbitrary: a)
  case Nil
  then show ?case by simp
next
  case (Cons ys xss)
  have "accumulate exact a (map f (concat (ys # xss)))
      = accumulate exact (accumulate exact a (map f ys)) (map f (concat xss))"
    by (simp add: accumulate_append)
  also have "accumulate exact a (map f ys) = fadd exact a (accumulate exact (Finite 0) (map f ys))"
    by (rule accumulate_exact_start)
  finally show ?case using Cons.IH by simp
qed

lemma accumulate_exact_perm:
  assumes "mset xs = mset ys"
  shows "accumulate exact a xs = accumulate exact a ys"
proof -
  have "fold (\<lambda>x s. fadd exact s x) xs = fold (\<lambda>x s. fadd exact s x) ys"
  proof (rule fold_multiset_equiv [OF _ assms])
    fix x y
    show "(\<lambda>s. fadd exact s x) \<circ> (\<lambda>s. fadd exact s y) = (\<lambda>s. fadd exact s y) \<circ> (\<lambda>s. fadd exact s x)"
      by (rule ext) (simp add: fadd_exact_assoc fadd_exact_commute [of x y])
  qed
  then show ?thesis by (simp add: accumulate_def)
qed

lemma merged_sum_exact:
  assumes "valid_schedule (n_cols data) sched"
  shows "accumulate exact (Finite 0) (map (local_sum exact E data cs c r) sched)
       = accumulate exact (Finite 0)
           (map (\<lambda>i. col data i ! r) (assigned E data cs c [0..<n_cols data]))"
proof -
  have "map (local_sum exact E data cs c r) sched
      = map (\<lambda>ys. accumulate exact (Finite 0) (map (\<lambda>i. col data i ! r) ys))
          (map (assigned E data cs c) sched)"
    by (simp add: local_sum_def o_def)
  then have "accumulate exact (Finite 0) (map (local_sum exact E data cs c r) sched)
      = accumulate exact (Finite 0)
          (map (\<lambda>i. col data i ! r) (concat (map (assigned E data cs c) sched)))"
    by (simp only: accumulate_exact_concat)
  also have "concat (map (assigned E data cs c) sched) = assigned E data cs c (concat sched)"
    by (induction sched) (simp_all add: assigned_def)
  also have "accumulate exact (Finite 0)
          (map (\<lambda>i. col data i ! r) (assigned E data cs c (concat sched)))
      = accumulate exact (Finite 0)
          (map (\<lambda>i. col data i ! r) (assigned E data cs c [0..<n_cols data]))"
    by (rule accumulate_exact_perm)
       (simp add: assigned_mset [OF valid_schedule_mset [OF assms]])
  finally show ?thesis .
qed

lemma merged_acc_exact:
  assumes "valid_schedule (n_cols data) sched"
  shows "merged_acc exact E data cs sched = merged_acc exact E data cs [[0..<n_cols data]]"
proof -
  have v: "valid_schedule (n_cols data) [[0..<n_cols data]]"
    by (simp add: valid_schedule_def sorted_sort_id)
  show ?thesis
    unfolding merged_acc_def
    by (simp only: merged_sum_exact [OF assms] merged_sum_exact [OF v])
qed

section \<open>Counts and empty clusters\<close>

lemma sum_list_delta_upt:
  "sum_list (map (\<lambda>c. if a = c then 1 else 0) [0..<K]) = (if a < K then 1 else (0::nat))"
  by (induction K) auto

lemma sum_length_filter:
  "\<forall>x\<in>set xs. f x < K \<Longrightarrow>
   sum_list (map (\<lambda>c. length (filter (\<lambda>x. f x = c) xs)) [0..<K]) = length xs"
proof (induction xs)
  case Nil
  then show ?case by simp
next
  case (Cons x xs)
  have "sum_list (map (\<lambda>c. length (filter (\<lambda>x. f x = c) (x # xs))) [0..<K])
      = sum_list (map (\<lambda>c. (if f x = c then 1 else 0) + length (filter (\<lambda>x. f x = c) xs)) [0..<K])"
    by (rule arg_cong [where f = sum_list]) simp
  also have "\<dots> = sum_list (map (\<lambda>c. if f x = c then 1 else 0) [0..<K])
                 + sum_list (map (\<lambda>c. length (filter (\<lambda>x. f x = c) xs)) [0..<K])"
    by (simp add: sum_list_addf)
  also have "\<dots> = 1 + length xs"
    using Cons by (simp add: sum_list_delta_upt)
  finally show ?case by simp
qed

lemma assigned_length_le: "length (assigned E data cs c [0..<N]) \<le> N"
  unfolding assigned_def using length_filter_le [of _ "[0..<N]"] by simp

lemma unat_count:
  assumes "N < 2 ^ 64"
  shows "unat (of_nat (length (assigned E data cs c [0..<N])) :: size_t)
           = length (assigned E data cs c [0..<N])"
proof -
  have "length (assigned E data cs c [0..<N]) < 2 ^ 64"
    using assigned_length_le [of E data cs c N] assms by simp
  then show ?thesis by (simp add: unat_of_nat)
qed

lemma all_points_ok_cluster:
  "all_points_ok this cs \<Longrightarrow> i < n_cols (dataset this) \<Longrightarrow>
   cluster_of (metric this) (dataset this) cs i < n_cols cs"
  using closest_scan_le [of "metric this" cs "col (dataset this) i"]
  by (auto simp: all_points_ok_iff point_ok_def cluster_of_def)

lemma merged_counts_nth:
  "c < n_cols cs \<Longrightarrow> snd (merged_acc rnd E data cs sched) ! c
     = of_nat (length (assigned E data cs c [0..<n_cols data]))"
  by (simp add: merged_acc_def)

lemma merged_cols_nth:
  "c < n_cols cs \<Longrightarrow> cols (fst (merged_acc rnd E data cs sched)) ! c
     = map (\<lambda>r. accumulate rnd (Finite 0) (map (local_sum rnd E data cs c r) sched))
         [0..<n_rows cs]"
  by (simp add: merged_acc_def)

lemma merged_cols_length: "length (cols (fst (merged_acc rnd E data cs sched))) = n_cols cs"
  by (simp add: merged_acc_def)

lemma all_points_okI:
  assumes "wf_mat (dataset this)" and "n_rows (dataset this) = n_rows cs"
    and "\<forall>i<n_cols (dataset this). \<exists>j<n_cols cs.
           dless (metric this (col (dataset this) i) (col cs j)) PosInf"
  shows "all_points_ok this cs"
proof -
  have "length (col (dataset this) i) = n_rows cs" if "i < n_cols (dataset this)" for i
    using assms(1,2) that by (simp add: wf_mat_def list_all_length n_cols_def col_def)
  then show ?thesis
    using assms(3) by (simp add: all_points_ok_iff point_ok_def cluster_of_def closest_scan_selects_iff)
qed

lemma accumulate_zeros:
  "rnd 0 = Finite 0 \<Longrightarrow> \<forall>x\<in>set xs. x = Finite 0 \<Longrightarrow> accumulate rnd (Finite 0) xs = Finite 0"
  by (induction xs) simp_all

lemma assigned_chunk_empty:
  assumes "valid_schedule N sched" and "assigned E data cs c [0..<N] = []"
    and "chunk \<in> set sched"
  shows "assigned E data cs c chunk = []"
proof -
  have "set chunk \<subseteq> set (concat sched)" using assms(3) by auto
  then have "set chunk \<subseteq> {0..<N}" using valid_schedule_set [OF assms(1)] by simp
  moreover have "\<forall>i\<in>{0..<N}. cluster_of E data cs i \<noteq> c"
    using assms(2) by (auto simp: assigned_def filter_empty_conv)
  ultimately show ?thesis by (auto simp: assigned_def filter_empty_conv)
qed

lemma empty_cluster_column:
  assumes "rnd 0 = Finite 0" and "valid_schedule (n_cols data) sched" and "i < n_cols cs"
    and "assigned E data cs i [0..<n_cols data] = []"
  shows "col (normalize_centroids rnd cs (snd (merged_acc rnd E data cs sched))
                (fst (merged_acc rnd E data cs sched))) i
           = replicate (n_rows cs) (Finite 0)"
proof -
  let ?m = "merged_acc rnd E data cs sched"
  have z: "snd ?m ! i = 0"
    unfolding merged_counts_nth [OF assms(3)] by (simp add: assms(4))
  have l: "local_sum rnd E data cs i r chunk = Finite 0" if "chunk \<in> set sched" for r chunk
    using assigned_chunk_empty [OF assms(2,4) that] by (simp add: local_sum_def)
  have s: "accumulate rnd (Finite 0) (map (local_sum rnd E data cs i r) sched) = Finite 0" for r
    by (rule accumulate_zeros [where rnd = rnd]) (use l assms(1) in auto)
  have "col (normalize_centroids rnd cs (snd ?m) (fst ?m)) i = mean_col rnd (snd ?m) (fst ?m) i"
    unfolding col_def using merged_cols_length assms(3) by (rule normalize_centroids_nth)
  also have "\<dots> = cols (fst ?m) ! i" using z by (simp add: mean_col_def)
  also have "\<dots> = replicate (n_rows cs) (Finite 0)"
    unfolding merged_cols_nth [OF assms(3)] by (simp add: s map_replicate_const)
  finally show ?thesis .
qed

section \<open>A call without points\<close>

lemma merged_acc_no_points:
  assumes "rnd 0 = Finite 0" and "n_cols data = 0" and "valid_schedule (n_cols data) sched"
  shows "merged_acc rnd E data cs sched = zero_acc cs"
proof (rule acc_eqI [OF merged_acc_shape zero_acc_shape])
  fix c r assume cr: "c < n_cols cs" "r < n_rows cs"
  have e: "assigned E data cs c [0..<n_cols data] = []"
    using assms(2) by (simp add: assigned_def)
  have l: "local_sum rnd E data cs c r chunk = Finite 0" if "chunk \<in> set sched" for chunk
    using assigned_chunk_empty [OF assms(3) e that] by (simp add: local_sum_def)
  have "accumulate rnd (Finite 0) (map (local_sum rnd E data cs c r) sched) = Finite 0"
    by (rule accumulate_zeros [where rnd = rnd]) (use l assms(1) in auto)
  then show "ent (merged_acc rnd E data cs sched) c r = ent (zero_acc cs) c r"
    using cr by (simp add: merged_acc_ent zero_acc_ent)
next
  fix c assume "c < n_cols cs"
  then show "cnt (merged_acc rnd E data cs sched) c = cnt (zero_acc cs) c"
    using assms(2) by (simp add: merged_acc_cnt zero_acc_cnt assigned_def)
qed

lemma normalize_zero_counts:
  assumes "length (cols m) = n_cols cs"
  shows "normalize_centroids rnd cs (replicate (n_cols cs) 0) m = (m::mat)"
proof -
  have "cols (normalize_centroids rnd cs (replicate (n_cols cs) 0) m) = cols m"
  proof (rule nth_equalityI)
    show "length (cols (normalize_centroids rnd cs (replicate (n_cols cs) 0) m)) = length (cols m)"
      by (rule normalize_centroids_length)
  next
    fix c assume "c < length (cols (normalize_centroids rnd cs (replicate (n_cols cs) 0) m))"
    then have c: "c < n_cols cs" using assms by (simp add: normalize_centroids_length)
    show "cols (normalize_centroids rnd cs (replicate (n_cols cs) 0) m) ! c = cols m ! c"
      using normalize_centroids_nth [OF assms c, of rnd "replicate (n_cols cs) 0"] c
      by (simp add: mean_col_def)
  qed
  moreover have "n_rows (normalize_centroids rnd cs (replicate (n_cols cs) 0) m) = n_rows m"
    by (rule normalize_centroids_n_rows)
  ultimately show ?thesis by simp
qed

lemma merged_acc_wf:
  "n_rows (fst (merged_acc rnd E data cs sched)) = n_rows cs
   \<and> list_all (\<lambda>v. length v = n_rows cs) (cols (fst (merged_acc rnd E data cs sched)))"
  by (simp add: merged_acc_def list_all_iff)

lemma mean_col_length: "length (mean_col rnd counts m c) = length (cols m ! c)"
  by (simp add: mean_col_def)

section \<open>The distortion\<close>

lemma distortion_accumulate:
  "distortion rnd E cs nc =
     fsqrt rnd (accumulate rnd (Finite 0)
                  (map (\<lambda>i. fpow2 rnd (E (col cs i) (col nc i))) [0..<n_cols cs]))"
proof -
  have "cNorm_step rnd E cs nc = (\<lambda>i s. fadd rnd s (fpow2 rnd (E (col cs i) (col nc i))))"
    by (intro ext) (simp add: cNorm_step_def)
  then show ?thesis
    by (simp add: distortion_def accumulate_def fold_map o_def)
qed

lemma dnonneg_sq_range: "dnonneg v \<Longrightarrow> sq_range v"
  by (cases v) simp_all

lemma dnonneg_not_NaN: "dnonneg v \<Longrightarrow> v \<noteq> NaN"
  by (cases v) simp_all

lemma sq_range_fpow2:
  assumes "\<And>x. 0 \<le> x \<Longrightarrow> dnonneg (rnd x)"
  shows "sq_range (fpow2 rnd v)"
  by (cases v) (simp_all add: assms dnonneg_sq_range)

lemma sq_range_fadd:
  assumes "\<And>x. 0 \<le> x \<Longrightarrow> dnonneg (rnd x)" and "sq_range a" and "sq_range b"
  shows "sq_range (fadd rnd a b)"
  using assms(2,3) by (cases a; cases b) (simp_all add: assms(1) dnonneg_sq_range)

lemma fadd_NaN_iff:
  assumes "\<And>x. 0 \<le> x \<Longrightarrow> dnonneg (rnd x)" and "sq_range a" and "sq_range b"
  shows "fadd rnd a b = NaN \<longleftrightarrow> a = NaN \<or> b = NaN"
  using assms(2,3) by (cases a; cases b) (simp_all add: assms(1) dnonneg_not_NaN)

lemma fpow2_NaN_iff:
  assumes "\<And>x. 0 \<le> x \<Longrightarrow> dnonneg (rnd x)"
  shows "fpow2 rnd v = NaN \<longleftrightarrow> v = NaN"
  by (cases v) (simp_all add: assms dnonneg_not_NaN)

lemma accumulate_sq_range:
  assumes "\<And>x. 0 \<le> x \<Longrightarrow> dnonneg (rnd x)" and "sq_range a"
  shows "sq_range (accumulate rnd a (map (\<lambda>i. fpow2 rnd (f i)) xs))"
  using assms(2)
proof (induction xs arbitrary: a)
  case Nil
  then show ?case by simp
next
  case (Cons x xs)
  have p: "sq_range (fpow2 rnd (f x))"
    using assms(1) by (rule sq_range_fpow2)
  have "sq_range (fadd rnd a (fpow2 rnd (f x)))"
    using assms(1) Cons.prems p by (rule sq_range_fadd)
  then show ?case using Cons.IH by simp
qed

lemma accumulate_sq_NaN_iff:
  assumes "\<And>x. 0 \<le> x \<Longrightarrow> dnonneg (rnd x)" and "sq_range a"
  shows "accumulate rnd a (map (\<lambda>i. fpow2 rnd (f i)) xs) = NaN
           \<longleftrightarrow> a = NaN \<or> (\<exists>i\<in>set xs. f i = NaN)"
  using assms(2)
proof (induction xs arbitrary: a)
  case Nil
  then show ?case by simp
next
  case (Cons x xs)
  have p: "sq_range (fpow2 rnd (f x))"
    using assms(1) by (rule sq_range_fpow2)
  have "fadd rnd a (fpow2 rnd (f x)) = NaN \<longleftrightarrow> a = NaN \<or> fpow2 rnd (f x) = NaN"
    using assms(1) Cons.prems p by (rule fadd_NaN_iff)
  then have "fadd rnd a (fpow2 rnd (f x)) = NaN \<longleftrightarrow> a = NaN \<or> f x = NaN"
    by (simp add: fpow2_NaN_iff [where rnd = rnd, OF assms(1)])
  moreover have r: "sq_range (fadd rnd a (fpow2 rnd (f x)))"
    using assms(1) Cons.prems p by (rule sq_range_fadd)
  ultimately show ?case using Cons.IH [OF r] by auto
qed

lemma accumulate_sq_zero:
  assumes "rnd 0 = Finite 0" and "\<forall>i\<in>set xs. f i = Finite 0"
  shows "accumulate rnd (Finite 0) (map (\<lambda>i. fpow2 rnd (f i)) xs) = Finite 0"
  using assms(2) by (induction xs) (simp_all add: assms(1))

lemma fsqrt_nonneg_iff:
  assumes "\<And>x. 0 \<le> x \<Longrightarrow> dnonneg (rnd x)" and "sq_range v"
  shows "dnonneg (fsqrt rnd v) \<longleftrightarrow> v \<noteq> NaN"
  using assms(2) by (cases v) (simp_all add: assms(1))

lemma distortion_nonneg_iff:
  assumes "\<And>x. 0 \<le> x \<Longrightarrow> dnonneg (rnd x)"
  shows "dnonneg (distortion rnd E cs nc) \<longleftrightarrow> (\<forall>i<n_cols cs. E (col cs i) (col nc i) \<noteq> NaN)"
proof -
  let ?s = "accumulate rnd (Finite 0)
              (map (\<lambda>i. fpow2 rnd (E (col cs i) (col nc i))) [0..<n_cols cs])"
  have z: "sq_range (Finite 0)" by simp
  have r: "sq_range ?s" using assms z by (rule accumulate_sq_range)
  have "dnonneg (fsqrt rnd ?s) \<longleftrightarrow> ?s \<noteq> NaN"
    using assms r by (rule fsqrt_nonneg_iff)
  moreover have "?s = NaN \<longleftrightarrow>
      Finite 0 = NaN \<or> (\<exists>i\<in>set [0..<n_cols cs]. E (col cs i) (col nc i) = NaN)"
    using assms z by (rule accumulate_sq_NaN_iff)
  ultimately show ?thesis
    unfolding distortion_accumulate by auto
qed

lemma distortion_zero:
  assumes "rnd 0 = Finite 0" and "\<forall>i<n_cols cs. E (col cs i) (col nc i) = Finite 0"
  shows "distortion rnd E cs nc = Finite 0"
proof -
  have "accumulate rnd (Finite 0) (map (\<lambda>i. fpow2 rnd (E (col cs i) (col nc i))) [0..<n_cols cs])
          = Finite 0"
    by (rule accumulate_sq_zero) (use assms in simp_all)
  then show ?thesis by (simp add: distortion_accumulate assms(1))
qed

section \<open>Calls that fail\<close>

lemma assign_point_no_centroids:
  "n_cols cs = 0 \<Longrightarrow> assign_point rnd E data cs i acc = Inl AssertFailed"
  by (simp add: assign_point_def closest_scan_def Log_Assert_def Let_def)

lemma run_chunk_no_centroids:
  "n_cols cs = 0 \<Longrightarrow> is \<noteq> [] \<Longrightarrow> run_chunk rnd E data cs is acc = Inl AssertFailed"
  by (cases "is") (simp_all add: assign_point_no_centroids)

lemma parallel_region_no_centroids:
  "n_cols cs = 0 \<Longrightarrow> concat sched \<noteq> [] \<Longrightarrow>
   parallel_region rnd E data cs sched shared = Inl AssertFailed"
proof (induction sched arbitrary: shared)
  case Nil
  then show ?case by simp
next
  case (Cons chunk rest)
  show ?case
  proof (cases "chunk = []")
    case True
    then have "concat rest \<noteq> []" using Cons.prems(2) by simp
    then show ?thesis using Cons.IH [OF Cons.prems(1)] True by (simp add: Let_def)
  next
    case False
    then show ?thesis
      using run_chunk_no_centroids [OF Cons.prems(1) False] by (simp add: Let_def)
  qed
qed

lemma valid_schedule_nonempty:
  assumes "valid_schedule N sched" and "0 < N"
  shows "concat sched \<noteq> []"
proof -
  have "set (concat sched) = {0..<N}" using assms(1) by (rule valid_schedule_set)
  then have "0 \<in> set (concat sched)" using assms(2) by simp
  then have "length (concat sched) \<noteq> 0" by (metis length_pos_if_in_set less_numeral_extra(3))
  then show ?thesis by simp
qed

lemma finalize_empty:
  assumes "n_cols cs = 0"
  shows "finalize rnd this cs (merged_acc rnd (metric this) (dataset this) cs sched)
       = (fsqrt rnd (Finite 0), \<lparr>n_rows = n_rows cs, cols = []\<rparr>, [], this)"
  using assms
  by (simp add: finalize_def merged_acc_def normalize_centroids_def distortion_def)

lemma mismatch_not_ok:
  assumes "wf_mat (dataset this)" and "n_rows (dataset this) \<noteq> n_rows cs"
    and "0 < n_cols (dataset this)"
  shows "\<not> all_points_ok this cs"
proof -
  have "0 < length (cols (dataset this))"
    using assms(3) by (simp add: n_cols_def)
  then have "length (col (dataset this) 0) = n_rows (dataset this)"
    using assms(1) by (simp add: wf_mat_def list_all_length col_def)
  then have "\<not> point_ok (metric this) (dataset this) cs 0"
    using assms(2) by (simp add: point_ok_def)
  then show ?thesis using assms(3) by (auto simp: all_points_ok_iff)
qed

section \<open>The sequential scan\<close>

lemma Iterate_sequential_unfold:
  "Iterate_sequential rnd this cs newCentroids counts =
     (case run_chunk rnd (metric this) (dataset this) cs [0..<n_cols (dataset this)] (zero_acc cs) of
        Inl e \<Rightarrow> Inl e
      | Inr merged \<Rightarrow> Inr (finalize rnd this cs merged))"
  by (simp add: Iterate_sequential_def Let_def shared_zeros finalize_def split: sum.splits)

lemma run_chunk_all:
  assumes "all_points_ok this cs"
  shows "run_chunk exact (metric this) (dataset this) cs [0..<n_cols (dataset this)] (zero_acc cs)
       = Inr (merged_acc exact (metric this) (dataset this) cs [[0..<n_cols (dataset this)]])"
proof -
  let ?E = "metric this" and ?data = "dataset this"
  have ok: "\<forall>i\<in>set [0..<n_cols ?data]. point_ok ?E ?data cs i"
    using assms by (simp add: all_points_ok_iff)
  from run_chunk_Inr [OF zero_acc_shape ok, of exact]
  obtain acc' where p: "run_chunk exact ?E ?data cs [0..<n_cols ?data] (zero_acc cs) = Inr acc'"
    and s: "shape (n_rows cs) (n_cols cs) acc'"
    and e: "\<forall>c<n_cols cs. \<forall>r<n_rows cs. ent acc' c r =
          accumulate exact (ent (zero_acc cs) c r)
            (map (\<lambda>i. col ?data i ! r) (assigned ?E ?data cs c [0..<n_cols ?data]))"
    and n: "\<forall>c<n_cols cs. cnt acc' c =
          cnt (zero_acc cs) c + of_nat (length (assigned ?E ?data cs c [0..<n_cols ?data]))"
    by auto
  have "acc' = merged_acc exact ?E ?data cs [[0..<n_cols ?data]]"
  proof (rule acc_eqI [OF s merged_acc_shape])
    fix c r assume "c < n_cols cs" "r < n_rows cs"
    then show "ent acc' c r = ent (merged_acc exact ?E ?data cs [[0..<n_cols ?data]]) c r"
      using e by (simp add: zero_acc_ent merged_acc_ent local_sum_def fadd_exact_zero_left)
  next
    fix c assume "c < n_cols cs"
    then show "cnt acc' c = cnt (merged_acc exact ?E ?data cs [[0..<n_cols ?data]]) c"
      using n by (simp add: zero_acc_cnt merged_acc_cnt)
  qed
  then show ?thesis using p by simp
qed

lemma Iterate_sequential_Inr_iff:
  "Iterate_sequential exact this cs newCentroids counts = Inr res \<longleftrightarrow>
     all_points_ok this cs
     \<and> res = finalize exact this cs
               (merged_acc exact (metric this) (dataset this) cs [[0..<n_cols (dataset this)]])"
proof (cases "all_points_ok this cs")
  case True
  then show ?thesis using run_chunk_all [OF True] by (auto simp: Iterate_sequential_unfold)
next
  case False
  then have "\<exists>i\<in>set [0..<n_cols (dataset this)]. \<not> point_ok (metric this) (dataset this) cs i"
    by (auto simp: all_points_ok_iff)
  from run_chunk_Inl [OF zero_acc_shape this, of exact] False
  show ?thesis by (auto simp: Iterate_sequential_unfold)
qed

lemma contiguous_valid: "concat sched = [0..<N] \<Longrightarrow> valid_schedule N sched"
  by (simp add: valid_schedule_def sorted_sort_id)

section \<open>The scenarios, evaluated\<close>

lemma rd_5: "round_double 5 = Finite 5"
  using round_double_normal [of 2 5] by (simp add: rne_def powr_neg_numeral)

lemma rd_6: "round_double 6 = Finite 6"
  using round_double_normal [of 2 6] by (simp add: rne_def powr_neg_numeral)

lemma rd_10: "round_double 10 = Finite 10"
  using round_double_normal [of 3 10] by (simp add: rne_def powr_neg_numeral)

lemma rd_21: "round_double 21 = Finite 21"
  using round_double_normal [of 4 21] by (simp add: rne_def powr_neg_numeral)

lemma rd_half: "round_double (1 / 2) = Finite (1 / 2)"
  using round_double_normal [of "- 1" "1 / 2"] by (simp add: rne_def powr_neg_numeral)

lemma rd_21_half: "round_double (21 / 2) = Finite (21 / 2)"
  using round_double_normal [of 3 "21 / 2"] by (simp add: rne_def powr_neg_numeral)

lemma rd_3_half: "round_double (3 / 2) = Finite (3 / 2)"
  using round_double_normal [of 0 "3 / 2"] by (simp add: rne_def powr_neg_numeral)

lemma replicate_numeral: "replicate (numeral k) x = x # replicate (pred_numeral k) x"
  by (simp add: numeral_eq_Suc)

lemma list_update_numeral: "(x # xs)[numeral k := v] = x # xs[pred_numeral k := v]"
  by (simp add: numeral_eq_Suc)

lemmas rd_evals = rd_0 rd_1 rd_2 rd_4 rd_5 rd_6 rd_10 rd_21 rd_half rd_21_half rd_3_half
  rd_a rd_b rd_c rd_d

lemmas eval_defs = replicate_numeral list_update_numeral ParallelNaiveKMeans_new_def
     Iterate_def mat_zeros_def col_zeros_def n_cols_def
     assign_point_def closest_scan_def scan_step_def col_def Log_Assert_def col_add_def merge_local_def
     normalize_centroids_def normalize_step_def of_size_t_def Let_def exact_def
     manhattan_def const_metric_def first_coordinate_metric_def canberra_def
     scenario_dataset_def scenario_centroids_def scenario_kmeans_def empty_mat_def
     scenario_result_def far_dataset_def far_centroids_def far_kmeans_def far_result_def
     big_dataset_def big_centroids_def big_kmeans_def big_result_def

lemma scenario_valid: "valid_schedule (n_cols (dataset scenario_kmeans)) [[0, 1], [2, 3]]"
  by (simp add: valid_schedule_def eval_defs upt_conv_Cons)

lemma scenario_N: "n_cols (dataset scenario_kmeans) < 2 ^ 64"
  by (simp add: eval_defs)

lemma scenario_run_exact:
  "Iterate exact [[0, 1], [2, 3]] scenario_kmeans scenario_centroids empty_mat []
     = Inr (Finite (sqrt (1 / 2)), scenario_result, [2, 2],
            scenario_kmeans\<lparr>distanceCalculations := 10\<rparr>)"
  by (simp add: eval_defs distortion_def cNorm_step_def power2_eq_square)

lemma scenario_run:
  "Iterate round_double [[0, 1], [2, 3]] scenario_kmeans scenario_centroids empty_mat []
     = Inr (distortion round_double manhattan scenario_centroids scenario_result,
            scenario_result, [2, 2], scenario_kmeans\<lparr>distanceCalculations := 10\<rparr>)"
  by (simp add: eval_defs rd_evals)

lemma far_valid: "valid_schedule (n_cols (dataset far_kmeans)) [[0, 1], [2, 3]]"
  by (simp add: valid_schedule_def eval_defs upt_conv_Cons)

lemma far_run:
  "Iterate round_double [[0, 1], [2, 3]] far_kmeans far_centroids empty_mat []
     = Inr (distortion round_double manhattan far_centroids far_result,
            far_result, [4, 0], far_kmeans\<lparr>distanceCalculations := 10\<rparr>)"
  by (simp add: eval_defs rd_evals)


lemma scenario_sequential_run:
  "Iterate_sequential exact scenario_kmeans scenario_centroids empty_mat []
     = Inr (Finite (sqrt (1 / 2)), scenario_result, [2, 2],
            scenario_kmeans\<lparr>distanceCalculations := 10\<rparr>)"
  by (simp add: Iterate_sequential_def eval_defs distortion_def cNorm_step_def power2_eq_square)

lemma scenario_assigned:
  "assigned (metric scenario_kmeans) (dataset scenario_kmeans) scenario_centroids 1
     [0..<n_cols (dataset scenario_kmeans)] = [2, 3]"
  by (simp add: assigned_def cluster_of_def eval_defs upt_conv_Cons)


lemma far_assigned:
  "assigned (metric far_kmeans) (dataset far_kmeans) far_centroids 1
     [0..<n_cols (dataset far_kmeans)] = []"
  by (simp add: assigned_def cluster_of_def eval_defs upt_conv_Cons)

section \<open>The properties\<close>




text \<open>C2, as the code has it. For a rounding that maps 0 to 0 and non-negative numbers to non-negative doubles (as that of the machine does): the returned scalar is the square root of the sum, taken over the \<open>K\<close> clusters in index order, of \<open>Evaluate(centroids[i], newCentroids[i])\<close> squared; it is \<open>>= 0\<close> exactly when none of these \<open>K\<close> distances is not-a-number; and it is 0 whenever each of these \<open>K\<close> distances is 0, in particular whenever the new centroids equal the old ones and \<open>Evaluate(c, c)\<close> is 0 for every old centroid.\<close>

theorem distortion_formula:
  assumes "Iterate rnd sched this centroids newCentroids counts
             = Inr (d, newCentroids', counts', this')"
    and "rnd 0 = Finite 0" and "\<And>x. 0 \<le> x \<Longrightarrow> dnonneg (rnd x)"
  shows "d = fsqrt rnd (accumulate rnd (Finite 0)
                 (map (\<lambda>i. fpow2 rnd (metric this (col centroids i) (col newCentroids' i)))
                    [0..<n_cols centroids]))
       \<and> (dnonneg d \<longleftrightarrow>
            (\<forall>i<n_cols centroids. metric this (col centroids i) (col newCentroids' i) \<noteq> NaN))
       \<and> ((\<forall>i<n_cols centroids. metric this (col centroids i) (col newCentroids' i) = Finite 0)
            \<longrightarrow> d = Finite 0)
       \<and> (newCentroids' = centroids
            \<and> (\<forall>i<n_cols centroids. metric this (col centroids i) (col centroids i) = Finite 0)
            \<longrightarrow> d = Finite 0)"
proof -
  have d: "d = distortion rnd (metric this) centroids newCentroids'"
    using assms(1) by (auto simp: Iterate_unfold finalize_def split: sum.splits)
  show ?thesis
    unfolding d
    using distortion_zero [where rnd = rnd and cs = centroids and E = "metric this"
                             and nc = newCentroids', OF assms(2)]
      distortion_nonneg_iff [where rnd = rnd and cs = centroids and E = "metric this"
                               and nc = newCentroids', OF assms(3)]
    by (auto simp: distortion_accumulate [symmetric])
qed

text \<open>C2 on the scenario, in the arithmetic of the machine: no distance is not-a-number and the distortion is non-negative.\<close>

theorem distortion_formula_witness:
  "Iterate round_double [[0, 1], [2, 3]] scenario_kmeans scenario_centroids empty_mat []
        = Inr (distortion round_double manhattan scenario_centroids scenario_result,
               scenario_result, [2, 2], scenario_kmeans\<lparr>distanceCalculations := 10\<rparr>)
   \<and> round_double 0 = Finite 0
   \<and> list_all (\<lambda>i. metric scenario_kmeans (col scenario_centroids i) (col scenario_result i) \<noteq> NaN)
        [0..<n_cols scenario_centroids]
   \<and> dnonneg (distortion round_double manhattan scenario_centroids scenario_result)"
proof -
  note T = distortion_formula [OF scenario_run round_double_zero round_double_nonneg]
  have a: "\<forall>i<n_cols scenario_centroids.
          metric scenario_kmeans (col scenario_centroids i) (col scenario_result i) \<noteq> NaN"
    by (simp add: eval_defs less_Suc_eq)
  have b: "list_all (\<lambda>i. metric scenario_kmeans (col scenario_centroids i) (col scenario_result i) \<noteq> NaN)
        [0..<n_cols scenario_centroids]"
    by (simp add: eval_defs)
  have c: "dnonneg (distortion round_double manhattan scenario_centroids scenario_result)"
    using T a by blast
  show ?thesis
    using scenario_run round_double_zero b c by blast
qed

text \<open>C2 as stated fails in both directions and in its sign. With the distance along the first coordinate, the points (0,0) and (0,2) and the centroid (0,0), the new centroid is (0,1), which differs from the old one, and the distortion is 0. With the Canberra distance, the points 1 and -1 and the centroid 0, the new centroid is 0 again, and the distortion is not-a-number: neither 0 nor \<open>>= 0\<close>.\<close>

theorem distortion_zero_counterexample:
  "Iterate round_double [[0, 1]]
      (ParallelNaiveKMeans_new
         \<lparr>n_rows = 2, cols = [[Finite 0, Finite 0], [Finite 0, Finite 2]]\<rparr>
         first_coordinate_metric)
      \<lparr>n_rows = 2, cols = [[Finite 0, Finite 0]]\<rparr> empty_mat []
     = Inr (Finite 0, \<lparr>n_rows = 2, cols = [[Finite 0, Finite 1]]\<rparr>, [2],
            \<lparr>dataset = \<lparr>n_rows = 2, cols = [[Finite 0, Finite 0], [Finite 0, Finite 2]]\<rparr>,
             metric = first_coordinate_metric, distanceCalculations = 3\<rparr>)
   \<and> \<lparr>n_rows = 2, cols = [[Finite 0, Finite 1]]\<rparr> \<noteq> \<lparr>n_rows = 2, cols = [[Finite 0, Finite 0]]\<rparr>
   \<and> Iterate round_double [[0, 1]]
      (ParallelNaiveKMeans_new \<lparr>n_rows = 1, cols = [[Finite 1], [Finite (- 1)]]\<rparr> canberra)
      \<lparr>n_rows = 1, cols = [[Finite 0]]\<rparr> empty_mat []
     = Inr (NaN, \<lparr>n_rows = 1, cols = [[Finite 0]]\<rparr>, [2],
            \<lparr>dataset = \<lparr>n_rows = 1, cols = [[Finite 1], [Finite (- 1)]]\<rparr>,
             metric = canberra, distanceCalculations = 3\<rparr>)
   \<and> \<not> dnonneg NaN \<and> NaN \<noteq> Finite 0"
  by (simp add: eval_defs rd_evals distortion_def cNorm_step_def)

text \<open>C3. When \<open>Iterate\<close> returns, the counts sum to \<open>N\<close>, the number of dataset points: every point is counted in exactly one cluster.\<close>

theorem counts_sum_to_N:
  assumes "valid_schedule (n_cols (dataset this)) sched"
    and "n_cols (dataset this) < 2 ^ 64"
    and "Iterate rnd sched this centroids newCentroids counts
           = Inr (d, newCentroids', counts', this')"
  shows "sum_list (map unat counts') = n_cols (dataset this)"
proof -
  let ?E = "metric this" and ?data = "dataset this"
  let ?N = "n_cols ?data"
  have ok: "all_points_ok this centroids"
    and res: "(d, newCentroids', counts', this')
                = finalize rnd this centroids (merged_acc rnd ?E ?data centroids sched)"
    using Iterate_Inr_iff [OF assms(1)] assms(3) by auto
  have c: "counts' = snd (merged_acc rnd ?E ?data centroids sched)"
    using res by (simp add: finalize_def)
  have "map unat counts'
      = map (\<lambda>c. length (filter (\<lambda>i. cluster_of ?E ?data centroids i = c) [0..<?N])) [0..<n_cols centroids]"
    unfolding c merged_acc_def using unat_count [OF assms(2), of ?E ?data centroids]
    by (simp add: assigned_def)
  moreover have "\<forall>i\<in>set [0..<?N]. cluster_of ?E ?data centroids i < n_cols centroids"
    using all_points_ok_cluster [OF ok] by simp
  ultimately show ?thesis
    using sum_length_filter [of "[0..<?N]" "cluster_of ?E ?data centroids" "n_cols centroids"]
    by simp
qed

text \<open>C3 on the scenario: the counts 2 and 2 sum to 4.\<close>

theorem counts_sum_to_N_witness:
  "valid_schedule (n_cols (dataset scenario_kmeans)) [[0, 1], [2, 3]]
   \<and> n_cols (dataset scenario_kmeans) < 2 ^ 64
   \<and> Iterate round_double [[0, 1], [2, 3]] scenario_kmeans scenario_centroids empty_mat []
        = Inr (distortion round_double manhattan scenario_centroids scenario_result,
               scenario_result, [2, 2], scenario_kmeans\<lparr>distanceCalculations := 10\<rparr>)
   \<and> sum_list (map unat [2, 2 :: size_t]) = n_cols (dataset scenario_kmeans)"
  using counts_sum_to_N [OF scenario_valid scenario_N scenario_run]
    scenario_valid scenario_N scenario_run
  by simp




text \<open>C5, as the code has it. \<open>Iterate\<close> checks nothing before the parallel region. With no centroid and at least one point, the call ends in the failed assertion of the assignment loop; with no centroid and no point it returns normally, with distortion 0 and empty outputs; with a dataset whose row count differs from that of the centroids and at least one point, the call fails inside the assignment loop.\<close>

theorem no_configuration_check:
  assumes "valid_schedule (n_cols (dataset this)) sched"
  shows "(n_cols centroids = 0 \<and> 0 < n_cols (dataset this) \<longrightarrow>
            Iterate rnd sched this centroids newCentroids counts = Inl AssertFailed)
       \<and> (n_cols centroids = 0 \<and> n_cols (dataset this) = 0 \<and> rnd 0 = Finite 0 \<longrightarrow>
            Iterate rnd sched this centroids newCentroids counts
              = Inr (Finite 0, \<lparr>n_rows = n_rows centroids, cols = []\<rparr>, [], this))
       \<and> (wf_mat (dataset this) \<and> n_rows (dataset this) \<noteq> n_rows centroids
            \<and> 0 < n_cols (dataset this) \<longrightarrow>
            (\<exists>e. Iterate rnd sched this centroids newCentroids counts = Inl e))"
proof (intro conjI impI)
  assume h: "n_cols centroids = 0 \<and> 0 < n_cols (dataset this)"
  then have "concat sched \<noteq> []" using valid_schedule_nonempty [OF assms] by simp
  then show "Iterate rnd sched this centroids newCentroids counts = Inl AssertFailed"
    using h by (simp add: Iterate_unfold parallel_region_no_centroids)
next
  assume h: "n_cols centroids = 0 \<and> n_cols (dataset this) = 0 \<and> rnd 0 = Finite 0"
  then have "all_points_ok this centroids" by (simp add: all_points_ok_iff)
  then show "Iterate rnd sched this centroids newCentroids counts
              = Inr (Finite 0, \<lparr>n_rows = n_rows centroids, cols = []\<rparr>, [], this)"
    using Iterate_ok [OF assms] h by (simp add: finalize_empty)
next
  assume "wf_mat (dataset this) \<and> n_rows (dataset this) \<noteq> n_rows centroids
            \<and> 0 < n_cols (dataset this)"
  then have "\<not> all_points_ok this centroids" using mismatch_not_ok by blast
  then show "\<exists>e. Iterate rnd sched this centroids newCentroids counts = Inl e"
    using Iterate_fails [OF assms] by blast
qed

text \<open>C5 on the scenario's dataset: without centroids the call ends in the failed assertion; with a two-dimensional centroid it fails as well; and without centroids and without points the call returns.\<close>

theorem no_configuration_check_witness:
  "valid_schedule (n_cols (dataset scenario_kmeans)) [[0, 1], [2, 3]]
   \<and> n_cols \<lparr>n_rows = 1, cols = []\<rparr> = 0 \<and> 0 < n_cols (dataset scenario_kmeans)
   \<and> Iterate round_double [[0, 1], [2, 3]] scenario_kmeans \<lparr>n_rows = 1, cols = []\<rparr> empty_mat []
        = Inl AssertFailed
   \<and> wf_mat (dataset scenario_kmeans)
   \<and> n_rows (dataset scenario_kmeans) \<noteq> n_rows \<lparr>n_rows = 2, cols = [[Finite 0, Finite 0]]\<rparr>
   \<and> (\<exists>e. Iterate round_double [[0, 1], [2, 3]] scenario_kmeans
              \<lparr>n_rows = 2, cols = [[Finite 0, Finite 0]]\<rparr> empty_mat [] = Inl e)
   \<and> valid_schedule (n_cols (dataset (ParallelNaiveKMeans_new empty_mat manhattan))) [[]]
   \<and> n_cols (dataset (ParallelNaiveKMeans_new empty_mat manhattan)) = 0
   \<and> round_double 0 = Finite 0
   \<and> Iterate round_double [[]] (ParallelNaiveKMeans_new empty_mat manhattan)
         \<lparr>n_rows = 1, cols = []\<rparr> empty_mat []
        = Inr (Finite 0, \<lparr>n_rows = 1, cols = []\<rparr>, [],
               ParallelNaiveKMeans_new empty_mat manhattan)"
proof -
  let ?t = "ParallelNaiveKMeans_new empty_mat manhattan"
  have a: "n_cols \<lparr>n_rows = 1, cols = []\<rparr> = 0" by (simp add: n_cols_def)
  have b: "0 < n_cols (dataset scenario_kmeans)" by (simp add: eval_defs)
  have c: "wf_mat (dataset scenario_kmeans)" by (simp add: wf_mat_def eval_defs)
  have d: "n_rows (dataset scenario_kmeans) \<noteq> n_rows \<lparr>n_rows = 2, cols = [[Finite 0, Finite 0]]\<rparr>"
    by (simp add: eval_defs)
  have v: "valid_schedule (n_cols (dataset ?t)) [[]]"
    by (simp add: valid_schedule_def eval_defs)
  have z: "n_cols (dataset ?t) = 0" by (simp add: eval_defs)
  have n: "Iterate round_double [[]] ?t \<lparr>n_rows = 1, cols = []\<rparr> empty_mat []
        = Inr (Finite 0, \<lparr>n_rows = 1, cols = []\<rparr>, [], ?t)"
    using no_configuration_check [OF v, of "\<lparr>n_rows = 1, cols = []\<rparr>" round_double empty_mat "[]"]
      a z round_double_zero
    by simp
  have "Iterate round_double [[0, 1], [2, 3]] scenario_kmeans \<lparr>n_rows = 1, cols = []\<rparr> empty_mat []
        = Inl AssertFailed
   \<and> (\<exists>e. Iterate round_double [[0, 1], [2, 3]] scenario_kmeans
              \<lparr>n_rows = 2, cols = [[Finite 0, Finite 0]]\<rparr> empty_mat [] = Inl e)"
    using no_configuration_check [OF scenario_valid,
            of "\<lparr>n_rows = 1, cols = []\<rparr>" round_double empty_mat "[]"]
      no_configuration_check [OF scenario_valid,
            of "\<lparr>n_rows = 2, cols = [[Finite 0, Finite 0]]\<rparr>" round_double empty_mat "[]"]
      a b c d
    by simp
  then show ?thesis
    using scenario_valid a b c d v z round_double_zero n by blast
qed

text \<open>C5 as stated fails: with one point and no centroid the call is not rejected up front; the loop body runs on point 0 and the call ends in the assertion failure.\<close>

theorem no_configuration_check_counterexample:
  "n_cols \<lparr>n_rows = 1, cols = []\<rparr> = 0
   \<and> Iterate round_double [[0]]
        (ParallelNaiveKMeans_new \<lparr>n_rows = 1, cols = [[Finite 5]]\<rparr> manhattan)
        \<lparr>n_rows = 1, cols = []\<rparr> empty_mat [] = Inl AssertFailed
   \<and> assign_point round_double manhattan \<lparr>n_rows = 1, cols = [[Finite 5]]\<rparr>
        \<lparr>n_rows = 1, cols = []\<rparr> 0 (\<lparr>n_rows = 1, cols = []\<rparr>, []) = Inl AssertFailed"
  by (simp add: eval_defs)

text \<open>C6. On a well-formed dataset of the centroids' dimension, where every point has a centroid at a distance below infinity, \<open>Iterate\<close> returns normally, and every cluster whose count is 0 has the zero vector as its new centroid: the division is skipped for it. The rounding is any that maps 0 to 0.\<close>

theorem empty_cluster_zero:
  assumes "rnd 0 = Finite 0"
    and "valid_schedule (n_cols (dataset this)) sched"
    and "wf_mat (dataset this)" and "n_rows (dataset this) = n_rows centroids"
    and "\<forall>i<n_cols (dataset this). \<exists>j<n_cols centroids.
           dless (metric this (col (dataset this) i) (col centroids j)) PosInf"
  shows "\<exists>d newCentroids' counts' this'.
           Iterate rnd sched this centroids newCentroids counts
             = Inr (d, newCentroids', counts', this')
         \<and> (\<forall>i<n_cols centroids. counts' ! i = 0 \<longrightarrow>
               col newCentroids' i = replicate (n_rows centroids) (Finite 0))"
proof -
  let ?E = "metric this" and ?data = "dataset this"
  let ?N = "n_cols ?data"
  let ?m = "merged_acc rnd ?E ?data centroids sched"
  have ok: "all_points_ok this centroids"
    using assms(3,4,5) by (rule all_points_okI)
  have N: "?N < 2 ^ 64" using assms(3) by (simp add: wf_mat_def)
  have run: "Iterate rnd sched this centroids newCentroids counts
               = Inr (finalize rnd this centroids ?m)"
    using assms(2) ok by (rule Iterate_ok)
  have "col (normalize_centroids rnd centroids (snd ?m) (fst ?m)) i
          = replicate (n_rows centroids) (Finite 0)"
    if i: "i < n_cols centroids" and z: "snd ?m ! i = 0" for i
  proof -
    let ?A = "assigned ?E ?data centroids i [0..<?N]"
    have "unat (snd ?m ! i) = length ?A"
      unfolding merged_counts_nth [OF i] using N by (rule unat_count)
    then have e: "?A = []" using z by simp
    show ?thesis using assms(1,2) i e by (rule empty_cluster_column)
  qed
  then show ?thesis unfolding run by (simp add: finalize_def)
qed

text \<open>C6 on the scenario 0, 1, 2, 3 with centroids 0, 1000, in the arithmetic of the machine: the call returns, cluster 1 has count 0 and the zero vector.\<close>

theorem empty_cluster_zero_witness:
  "round_double 0 = Finite 0
   \<and> valid_schedule (n_cols (dataset far_kmeans)) [[0, 1], [2, 3]]
   \<and> wf_mat (dataset far_kmeans) \<and> n_rows (dataset far_kmeans) = n_rows far_centroids
   \<and> list_all (\<lambda>i. list_ex
         (\<lambda>j. dless (metric far_kmeans (col (dataset far_kmeans) i) (col far_centroids j)) PosInf)
         [0..<n_cols far_centroids]) [0..<n_cols (dataset far_kmeans)]
   \<and> Iterate round_double [[0, 1], [2, 3]] far_kmeans far_centroids empty_mat []
        = Inr (distortion round_double manhattan far_centroids far_result,
               far_result, [4, 0], far_kmeans\<lparr>distanceCalculations := 10\<rparr>)
   \<and> [4, 0 :: size_t] ! 1 = 0
   \<and> col far_result 1 = replicate (n_rows far_centroids) (Finite 0)"
proof -
  have h2: "wf_mat (dataset far_kmeans)" by (simp add: wf_mat_def eval_defs)
  have h3: "n_rows (dataset far_kmeans) = n_rows far_centroids" by (simp add: eval_defs)
  have "\<forall>i<n_cols (dataset far_kmeans).
          dless (metric far_kmeans (col (dataset far_kmeans) i) (col far_centroids 0)) PosInf"
    by (simp add: eval_defs less_Suc_eq)
  moreover have "0 < n_cols far_centroids" by (simp add: eval_defs)
  ultimately have h4: "\<forall>i<n_cols (dataset far_kmeans). \<exists>j<n_cols far_centroids.
         dless (metric far_kmeans (col (dataset far_kmeans) i) (col far_centroids j)) PosInf"
    by blast
  have h5: "1 < n_cols far_centroids" by (simp add: eval_defs)
  from empty_cluster_zero [where rnd = round_double and newCentroids = empty_mat
         and counts = "[]", OF round_double_zero far_valid h2 h3 h4] h5
  have "[4, 0 :: size_t] ! 1 = 0 \<longrightarrow>
        col far_result 1 = replicate (n_rows far_centroids) (Finite 0)"
    unfolding far_run by blast
  moreover have "list_all (\<lambda>i. list_ex
         (\<lambda>j. dless (metric far_kmeans (col (dataset far_kmeans) i) (col far_centroids j)) PosInf)
         [0..<n_cols far_centroids]) [0..<n_cols (dataset far_kmeans)]"
    by (simp add: eval_defs)
  ultimately show ?thesis using round_double_zero far_valid h2 h3 far_run by simp
qed

text \<open>C7, as the code has it. The counter is a \<open>size_t\<close>: a call that returns sets it to the old value plus \<open>K*N + K\<close> modulo \<open>2^64\<close>. Whenever that sum stays below \<open>2^64\<close>, the counter grows by exactly \<open>K*N + K\<close> and does not decrease.\<close>

theorem counter_update:
  assumes "Iterate rnd sched this centroids newCentroids counts
             = Inr (d, newCentroids', counts', this')"
  shows "unat (distanceCalculations this')
           = (unat (distanceCalculations this)
               + n_cols centroids * n_cols (dataset this) + n_cols centroids) mod 2 ^ 64
       \<and> (unat (distanceCalculations this)
               + n_cols centroids * n_cols (dataset this) + n_cols centroids < 2 ^ 64
            \<longrightarrow> unat (distanceCalculations this')
                  = unat (distanceCalculations this)
                     + n_cols centroids * n_cols (dataset this) + n_cols centroids
              \<and> distanceCalculations this \<le> distanceCalculations this')"
proof -
  let ?K = "n_cols centroids" and ?N = "n_cols (dataset this)"
  have "distanceCalculations this'
      = distanceCalculations this + of_nat ?K * of_nat ?N + of_nat ?K"
    using assms by (auto simp: Iterate_unfold finalize_def split: sum.splits)
  then have "distanceCalculations this'
      = of_nat (unat (distanceCalculations this) + ?K * ?N + ?K)"
    by simp
  then have u: "unat (distanceCalculations this')
      = (unat (distanceCalculations this) + ?K * ?N + ?K) mod 2 ^ 64"
    by (simp only: unat_of_nat) simp
  show ?thesis
  proof (intro conjI impI)
    show "unat (distanceCalculations this')
           = (unat (distanceCalculations this) + ?K * ?N + ?K) mod 2 ^ 64" by (rule u)
  next
    assume lt: "unat (distanceCalculations this) + ?K * ?N + ?K < 2 ^ 64"
    then show e: "unat (distanceCalculations this')
           = unat (distanceCalculations this) + ?K * ?N + ?K"
      using u by simp
    then show "distanceCalculations this \<le> distanceCalculations this'"
      by (simp add: word_le_nat_alt)
  qed
qed

text \<open>C7 on the scenario: the counter goes from 0 to 2*4 + 2 = 10.\<close>

theorem counter_update_witness:
  "Iterate round_double [[0, 1], [2, 3]] scenario_kmeans scenario_centroids empty_mat []
        = Inr (distortion round_double manhattan scenario_centroids scenario_result,
               scenario_result, [2, 2], scenario_kmeans\<lparr>distanceCalculations := 10\<rparr>)
   \<and> unat (distanceCalculations scenario_kmeans)
        + n_cols scenario_centroids * n_cols (dataset scenario_kmeans) + n_cols scenario_centroids
        < 2 ^ 64
   \<and> unat (distanceCalculations (scenario_kmeans\<lparr>distanceCalculations := 10\<rparr>))
        = unat (distanceCalculations scenario_kmeans)
           + n_cols scenario_centroids * n_cols (dataset scenario_kmeans) + n_cols scenario_centroids
   \<and> distanceCalculations scenario_kmeans
        \<le> distanceCalculations (scenario_kmeans\<lparr>distanceCalculations := 10\<rparr>)"
proof -
  have lt: "unat (distanceCalculations scenario_kmeans)
        + n_cols scenario_centroids * n_cols (dataset scenario_kmeans) + n_cols scenario_centroids
        < 2 ^ 64"
    by (simp add: eval_defs)
  show ?thesis
    using counter_update [OF scenario_run] lt scenario_run by blast
qed

text \<open>C7 as stated fails at the top of the range of \<open>size_t\<close>: from \<open>2^64 - 1\<close>, a call with one point and one centroid leaves the counter at 1, which is lower and not the old value plus 2.\<close>

theorem counter_wraps_counterexample:
  "Iterate round_double [[0]]
        \<lparr>dataset = \<lparr>n_rows = 1, cols = [[Finite 5]]\<rparr>, metric = manhattan,
         distanceCalculations = 18446744073709551615\<rparr>
        \<lparr>n_rows = 1, cols = [[Finite 0]]\<rparr> \<lparr>n_rows = 0, cols = []\<rparr> []
     = Inr (distortion round_double manhattan \<lparr>n_rows = 1, cols = [[Finite 0]]\<rparr>
              \<lparr>n_rows = 1, cols = [[Finite 5]]\<rparr>,
            \<lparr>n_rows = 1, cols = [[Finite 5]]\<rparr>, [1],
            \<lparr>dataset = \<lparr>n_rows = 1, cols = [[Finite 5]]\<rparr>, metric = manhattan,
             distanceCalculations = 1\<rparr>)
   \<and> (1 :: size_t) < 18446744073709551615
   \<and> unat (1 :: size_t) \<noteq> unat (18446744073709551615 :: size_t) + 1 * 1 + 1"
  by (simp add: eval_defs rd_evals)

text \<open>C8, as the code has it. With at least one centroid and a metric that returns neither not-a-number nor infinity on the point, the scan selects an index in \<open>0..K-1\<close>, and the assertion holds.\<close>

theorem assertion_unreachable:
  assumes "1 \<le> n_cols centroids"
    and "\<forall>j<n_cols centroids. Evaluate p (col centroids j) \<noteq> NaN
           \<and> Evaluate p (col centroids j) \<noteq> PosInf"
  shows "snd (closest_scan Evaluate centroids p) < n_cols centroids
       \<and> Log_Assert (snd (closest_scan Evaluate centroids p) \<noteq> n_cols centroids) = Inr ()"
proof -
  have "dless (Evaluate p (col centroids 0)) PosInf"
    using assms by (simp add: dless_PosInf)
  then have "\<exists>j<n_cols centroids. dless (Evaluate p (col centroids j)) PosInf"
    using assms(1) by (intro exI [of _ 0]) simp
  then have "snd (closest_scan Evaluate centroids p) \<noteq> n_cols centroids"
    by (simp add: closest_scan_selects_iff)
  then show ?thesis
    using closest_scan_le [of Evaluate centroids p] by (simp add: Log_Assert_def)
qed

text \<open>C8 on the scenario's centroids and the point 1.\<close>

theorem assertion_unreachable_witness:
  "1 \<le> n_cols scenario_centroids
   \<and> list_all (\<lambda>j. manhattan [Finite 1] (col scenario_centroids j) \<noteq> NaN
         \<and> manhattan [Finite 1] (col scenario_centroids j) \<noteq> PosInf)
        [0..<n_cols scenario_centroids]
   \<and> snd (closest_scan manhattan scenario_centroids [Finite 1]) < n_cols scenario_centroids
   \<and> Log_Assert (snd (closest_scan manhattan scenario_centroids [Finite 1])
                    \<noteq> n_cols scenario_centroids) = Inr ()"
proof -
  have h1: "1 \<le> n_cols scenario_centroids" by (simp add: eval_defs)
  have h2: "\<forall>j<n_cols scenario_centroids. manhattan [Finite 1] (col scenario_centroids j) \<noteq> NaN
         \<and> manhattan [Finite 1] (col scenario_centroids j) \<noteq> PosInf"
    by (simp add: eval_defs less_Suc_eq)
  have h3: "list_all (\<lambda>j. manhattan [Finite 1] (col scenario_centroids j) \<noteq> NaN
         \<and> manhattan [Finite 1] (col scenario_centroids j) \<noteq> PosInf)
        [0..<n_cols scenario_centroids]"
    by (simp add: eval_defs)
  show ?thesis
    using assertion_unreachable [where Evaluate = manhattan and p = "[Finite 1]", OF h1 h2] h1 h3
    by blast
qed

text \<open>C8 as stated fails for a metric that returns infinity, which is not not-a-number: infinity is not below the initial minimum, so with one centroid and one point the sentinel is kept and the assertion fails.\<close>

theorem assertion_reachable_counterexample:
  "1 \<le> n_cols \<lparr>n_rows = 1, cols = [[Finite 0]]\<rparr>
   \<and> const_metric PosInf [Finite 5] [Finite 0] \<noteq> NaN
   \<and> snd (closest_scan (const_metric PosInf) \<lparr>n_rows = 1, cols = [[Finite 0]]\<rparr> [Finite 5])
       = n_cols \<lparr>n_rows = 1, cols = [[Finite 0]]\<rparr>
   \<and> Iterate round_double [[0]]
        \<lparr>dataset = \<lparr>n_rows = 1, cols = [[Finite 5]]\<rparr>, metric = const_metric PosInf,
         distanceCalculations = 0\<rparr>
        \<lparr>n_rows = 1, cols = [[Finite 0]]\<rparr> \<lparr>n_rows = 0, cols = []\<rparr> [] = Inl AssertFailed"
  by (simp add: Iterate_def const_metric_def mat_zeros_def col_zeros_def n_cols_def
     assign_point_def closest_scan_def scan_step_def col_def Log_Assert_def Let_def)

text \<open>C9. In exact arithmetic, for every valid schedule (in particular every partition of \<open>0..N-1\<close> into contiguous chunks, one per worker, see \<open>contiguous_valid\<close>), accumulating every chunk into private accumulators and merging them by element-wise addition gives the result of a single sequential scan over all points: the call returns a result under the schedule exactly when the sequential scan returns it.\<close>

theorem schedule_independent:
  assumes "valid_schedule (n_cols (dataset this)) sched"
  shows "Iterate exact sched this centroids newCentroids counts = Inr res
     \<longleftrightarrow> Iterate_sequential exact this centroids newCentroids counts = Inr res"
  using Iterate_Inr_iff [OF assms, of exact] Iterate_sequential_Inr_iff
    merged_acc_exact [OF assms, of "metric this" centroids]
  by simp

text \<open>C9 on the scenario: two workers with the chunks 0, 1 and 2, 3 and the sequential scan return the same new centroids, counts, distortion and counter.\<close>

theorem schedule_independent_witness:
  "valid_schedule (n_cols (dataset scenario_kmeans)) [[0, 1], [2, 3]]
   \<and> Iterate exact [[0, 1], [2, 3]] scenario_kmeans scenario_centroids empty_mat []
        = Inr (Finite (sqrt (1 / 2)), scenario_result, [2, 2],
               scenario_kmeans\<lparr>distanceCalculations := 10\<rparr>)
   \<and> Iterate_sequential exact scenario_kmeans scenario_centroids empty_mat []
        = Inr (Finite (sqrt (1 / 2)), scenario_result, [2, 2],
               scenario_kmeans\<lparr>distanceCalculations := 10\<rparr>)"
  using schedule_independent [OF scenario_valid, of scenario_centroids empty_mat "[]"]
    scenario_valid scenario_run_exact
  by blast

text \<open>C10. Whatever the contents and shapes of the caller's two output buffers, the call gives the same result. On return, the new centroids have the row and column counts of the centroids and there is one count per centroid, which is the number of points assigned to it and nothing more; a cluster without points has the zero vector; and a call on a dataset without points returns the zero matrix and zero counts. So both buffers are resized to the centroids' dimensions and zero-filled before anything is added.\<close>

theorem output_buffers_overwritten:
  "Iterate rnd sched this centroids newCentroids1 counts1
     = Iterate rnd sched this centroids newCentroids2 counts2
   \<and> (valid_schedule (n_cols (dataset this)) sched
        \<and> Iterate rnd sched this centroids newCentroids1 counts1
             = Inr (d, newCentroids', counts', this')
        \<longrightarrow> n_rows newCentroids' = n_rows centroids
          \<and> n_cols newCentroids' = n_cols centroids
          \<and> list_all (\<lambda>v. length v = n_rows centroids) (cols newCentroids')
          \<and> length counts' = n_cols centroids
          \<and> list_all (\<lambda>c. counts' ! c
                  = of_nat (length (assigned (metric this) (dataset this) centroids c
                                      [0..<n_cols (dataset this)])))
                [0..<n_cols centroids])
   \<and> (valid_schedule (n_cols (dataset this)) sched \<and> rnd 0 = Finite 0
        \<and> Iterate rnd sched this centroids newCentroids1 counts1
             = Inr (d, newCentroids', counts', this')
        \<and> i < n_cols centroids
        \<and> assigned (metric this) (dataset this) centroids i [0..<n_cols (dataset this)] = []
        \<longrightarrow> col newCentroids' i = replicate (n_rows centroids) (Finite 0))
   \<and> (valid_schedule (n_cols (dataset this)) sched \<and> rnd 0 = Finite 0
        \<and> n_cols (dataset this) = 0
        \<longrightarrow> Iterate rnd sched this centroids newCentroids1 counts1
            = Inr (distortion rnd (metric this) centroids
                     \<lparr>n_rows = n_rows centroids,
                      cols = replicate (n_cols centroids)
                               (replicate (n_rows centroids) (Finite 0))\<rparr>,
                   \<lparr>n_rows = n_rows centroids,
                    cols = replicate (n_cols centroids)
                             (replicate (n_rows centroids) (Finite 0))\<rparr>,
                   replicate (n_cols centroids) 0,
                   this\<lparr>distanceCalculations :=
                          distanceCalculations this + of_nat (n_cols centroids)\<rparr>))"
proof (intro conjI impI)
  show "Iterate rnd sched this centroids newCentroids1 counts1
           = Iterate rnd sched this centroids newCentroids2 counts2"
    by (simp add: Iterate_unfold)
next
  let ?m = "merged_acc rnd (metric this) (dataset this) centroids sched"
  assume a: "valid_schedule (n_cols (dataset this)) sched
        \<and> Iterate rnd sched this centroids newCentroids1 counts1
             = Inr (d, newCentroids', counts', this')"
  then have res: "(d, newCentroids', counts', this') = finalize rnd this centroids ?m"
    using Iterate_Inr_iff [of this sched rnd centroids newCentroids1 counts1] by auto
  have c: "counts' = snd ?m"
    and n: "newCentroids' = normalize_centroids rnd centroids (snd ?m) (fst ?m)"
    using res by (simp_all add: finalize_def)
  show "n_rows newCentroids' = n_rows centroids"
    unfolding n by (simp add: normalize_centroids_n_rows merged_acc_wf)
  show "n_cols newCentroids' = n_cols centroids"
    unfolding n n_cols_def [of "normalize_centroids _ _ _ _"]
    by (simp add: normalize_centroids_length merged_cols_length)
  show "length counts' = n_cols centroids"
    unfolding c by (simp add: merged_acc_def)
  show "list_all (\<lambda>v. length v = n_rows centroids) (cols newCentroids')"
    unfolding list_all_length
  proof (intro allI impI)
    fix k assume "k < length (cols newCentroids')"
    then have k: "k < n_cols centroids"
      unfolding n by (simp add: normalize_centroids_length merged_cols_length)
    have "cols newCentroids' ! k = mean_col rnd (snd ?m) (fst ?m) k"
      unfolding n using merged_cols_length k by (rule normalize_centroids_nth)
    then show "length (cols newCentroids' ! k) = n_rows centroids"
      using k by (simp add: mean_col_length merged_cols_nth)
  qed
  show "list_all (\<lambda>c. counts' ! c
                  = of_nat (length (assigned (metric this) (dataset this) centroids c
                                      [0..<n_cols (dataset this)])))
                [0..<n_cols centroids]"
    unfolding c by (simp add: list_all_iff merged_counts_nth)
next
  let ?m = "merged_acc rnd (metric this) (dataset this) centroids sched"
  assume a: "valid_schedule (n_cols (dataset this)) sched \<and> rnd 0 = Finite 0
        \<and> Iterate rnd sched this centroids newCentroids1 counts1
             = Inr (d, newCentroids', counts', this')
        \<and> i < n_cols centroids
        \<and> assigned (metric this) (dataset this) centroids i [0..<n_cols (dataset this)] = []"
  then have v: "valid_schedule (n_cols (dataset this)) sched" and r: "rnd 0 = Finite 0"
    and i: "i < n_cols centroids"
    and e: "assigned (metric this) (dataset this) centroids i [0..<n_cols (dataset this)] = []"
    by blast+
  have res: "(d, newCentroids', counts', this') = finalize rnd this centroids ?m"
    using a Iterate_Inr_iff [of this sched rnd centroids newCentroids1 counts1] by auto
  then have n: "newCentroids' = normalize_centroids rnd centroids (snd ?m) (fst ?m)"
    by (simp add: finalize_def)
  show "col newCentroids' i = replicate (n_rows centroids) (Finite 0)"
    unfolding n using r v i e by (rule empty_cluster_column)
next
  assume a: "valid_schedule (n_cols (dataset this)) sched \<and> rnd 0 = Finite 0
        \<and> n_cols (dataset this) = 0"
  then have v: "valid_schedule (n_cols (dataset this)) sched" and r: "rnd 0 = Finite 0"
    and z: "n_cols (dataset this) = 0" by blast+
  have ok: "all_points_ok this centroids" using z by (simp add: all_points_ok_iff)
  have m: "merged_acc rnd (metric this) (dataset this) centroids sched = zero_acc centroids"
    using r z v by (rule merged_acc_no_points)
  have nz: "normalize_centroids rnd centroids (snd (zero_acc centroids)) (fst (zero_acc centroids))
              = fst (zero_acc centroids)"
    using normalize_zero_counts [of "fst (zero_acc centroids)" centroids rnd]
    by (simp add: zero_acc_def)
  show "Iterate rnd sched this centroids newCentroids1 counts1
          = Inr (distortion rnd (metric this) centroids
                   \<lparr>n_rows = n_rows centroids,
                    cols = replicate (n_cols centroids)
                             (replicate (n_rows centroids) (Finite 0))\<rparr>,
                 \<lparr>n_rows = n_rows centroids,
                  cols = replicate (n_cols centroids)
                           (replicate (n_rows centroids) (Finite 0))\<rparr>,
                 replicate (n_cols centroids) 0,
                 this\<lparr>distanceCalculations :=
                        distanceCalculations this + of_nat (n_cols centroids)\<rparr>)"
    unfolding Iterate_ok [OF v ok] m
    by (simp add: finalize_def nz z) (simp add: zero_acc_def)
qed

text \<open>C10 on the scenario with an empty cluster and on a dataset without points, each time from a buffer of another shape that holds garbage.\<close>

theorem output_buffers_overwritten_witness:
  "Iterate round_double [[0, 1], [2, 3]] far_kmeans far_centroids empty_mat []
     = Iterate round_double [[0, 1], [2, 3]] far_kmeans far_centroids
         \<lparr>n_rows = 7, cols = [[Finite 3, NaN]]\<rparr> [5, 6, 7]
   \<and> valid_schedule (n_cols (dataset far_kmeans)) [[0, 1], [2, 3]]
   \<and> round_double 0 = Finite 0
   \<and> Iterate round_double [[0, 1], [2, 3]] far_kmeans far_centroids
         \<lparr>n_rows = 7, cols = [[Finite 3, NaN]]\<rparr> [5, 6, 7]
        = Inr (distortion round_double manhattan far_centroids far_result,
               far_result, [4, 0], far_kmeans\<lparr>distanceCalculations := 10\<rparr>)
   \<and> n_rows far_result = n_rows far_centroids
   \<and> n_cols far_result = n_cols far_centroids
   \<and> list_all (\<lambda>v. length v = n_rows far_centroids) (cols far_result)
   \<and> length [4, 0 :: size_t] = n_cols far_centroids
   \<and> 1 < n_cols far_centroids
   \<and> assigned (metric far_kmeans) (dataset far_kmeans) far_centroids 1
         [0..<n_cols (dataset far_kmeans)] = []
   \<and> col far_result 1 = replicate (n_rows far_centroids) (Finite 0)
   \<and> valid_schedule (n_cols (dataset (ParallelNaiveKMeans_new empty_mat manhattan))) [[], []]
   \<and> n_cols (dataset (ParallelNaiveKMeans_new empty_mat manhattan)) = 0
   \<and> Iterate round_double [[], []] (ParallelNaiveKMeans_new empty_mat manhattan)
        far_centroids \<lparr>n_rows = 7, cols = [[Finite 3, NaN]]\<rparr> [5, 6, 7]
       = Inr (distortion round_double manhattan far_centroids
                \<lparr>n_rows = 1, cols = [[Finite 0], [Finite 0]]\<rparr>,
              \<lparr>n_rows = 1, cols = [[Finite 0], [Finite 0]]\<rparr>, [0, 0],
              \<lparr>dataset = empty_mat, metric = manhattan, distanceCalculations = 2\<rparr>)"
proof -
  let ?g = "\<lparr>n_rows = 7, cols = [[Finite 3, NaN]]\<rparr>"
  let ?t = "ParallelNaiveKMeans_new empty_mat manhattan"
  note T1 = output_buffers_overwritten
    [of round_double "[[0, 1], [2, 3]]" far_kmeans far_centroids ?g "[5, 6, 7]"
        empty_mat "[]" "distortion round_double manhattan far_centroids far_result"
        far_result "[4, 0]" "far_kmeans\<lparr>distanceCalculations := 10\<rparr>" 1]
  note T2 = output_buffers_overwritten
    [of round_double "[[], []]" ?t far_centroids ?g "[5, 6, 7]" empty_mat "[]"]
  have e: "Iterate round_double [[0, 1], [2, 3]] far_kmeans far_centroids ?g [5, 6, 7]
         = Iterate round_double [[0, 1], [2, 3]] far_kmeans far_centroids empty_mat []"
    using T1 by blast
  have r: "Iterate round_double [[0, 1], [2, 3]] far_kmeans far_centroids ?g [5, 6, 7]
        = Inr (distortion round_double manhattan far_centroids far_result,
               far_result, [4, 0], far_kmeans\<lparr>distanceCalculations := 10\<rparr>)"
    using e far_run by simp
  have s: "n_rows far_result = n_rows far_centroids
   \<and> n_cols far_result = n_cols far_centroids
   \<and> list_all (\<lambda>v. length v = n_rows far_centroids) (cols far_result)
   \<and> length [4, 0 :: size_t] = n_cols far_centroids"
    using T1 far_valid r by blast
  have k: "1 < n_cols far_centroids" by (simp add: eval_defs)
  have c: "col far_result 1 = replicate (n_rows far_centroids) (Finite 0)"
    using T1 far_valid round_double_zero r k far_assigned by blast
  have v: "valid_schedule (n_cols (dataset ?t)) [[], []]"
    by (simp add: valid_schedule_def eval_defs)
  have z: "n_cols (dataset ?t) = 0" by (simp add: eval_defs)
  have "Iterate round_double [[], []] ?t far_centroids ?g [5, 6, 7]
       = Inr (distortion round_double (metric ?t) far_centroids
                \<lparr>n_rows = n_rows far_centroids,
                 cols = replicate (n_cols far_centroids)
                          (replicate (n_rows far_centroids) (Finite 0))\<rparr>,
              \<lparr>n_rows = n_rows far_centroids,
               cols = replicate (n_cols far_centroids)
                        (replicate (n_rows far_centroids) (Finite 0))\<rparr>,
              replicate (n_cols far_centroids) 0,
              ?t\<lparr>distanceCalculations :=
                    distanceCalculations ?t + of_nat (n_cols far_centroids)\<rparr>)"
    using T2 v z round_double_zero by blast
  then have n: "Iterate round_double [[], []] ?t far_centroids ?g [5, 6, 7]
       = Inr (distortion round_double manhattan far_centroids
                \<lparr>n_rows = 1, cols = [[Finite 0], [Finite 0]]\<rparr>,
              \<lparr>n_rows = 1, cols = [[Finite 0], [Finite 0]]\<rparr>, [0, 0],
              \<lparr>dataset = empty_mat, metric = manhattan, distanceCalculations = 2\<rparr>)"
    by (simp add: replicate_numeral ParallelNaiveKMeans_new_def n_cols_def far_centroids_def)
  show ?thesis
    using e [symmetric] far_valid round_double_zero r s k far_assigned c v z n by blast
qed

end
